theory Spec2Isabelle
  imports Complex_Main "HOL-Library.Sublist"
begin

section \<open>Python values used by the pipeline\<close>

text \<open>
  Exceptions are values. Every exception the modelled code can meet derives from
  Python's \<open>Exception\<close>; the constructor says where it came from and carries the message.
\<close>

datatype error =
    AttributeError string
  | IndexError
  | KeyError string
  | OverflowError
  | FetchError string
  | ClassifierError string
  | SqliteError string

text \<open>
  A Python \<open>str\<close> is a \<open>string\<close>; a character is a code point in U+0000..U+00FF.
  The classes below are those of CPython's Unicode database on that range:
  \<open>str.isspace\<close> (also the regular expression class \<open>\s\<close>), \<open>str.isalnum\<close>
  (with the underscore, the class \<open>\w\<close>) and \<open>str.lower\<close>.
\<close>

definition code_point :: "char \<Rightarrow> nat" where
  "code_point c = of_char c"

definition isspace :: "char \<Rightarrow> bool" where
  "isspace c = (let n = code_point c in
     (9 \<le> n \<and> n \<le> 13) \<or> (28 \<le> n \<and> n \<le> 32) \<or> n = 133 \<or> n = 160)"

definition isalnum :: "char \<Rightarrow> bool" where
  "isalnum c = (let n = code_point c in
     (48 \<le> n \<and> n \<le> 57) \<or> (65 \<le> n \<and> n \<le> 90) \<or> (97 \<le> n \<and> n \<le> 122) \<or>
     n = 170 \<or> n = 178 \<or> n = 179 \<or> n = 181 \<or> n = 185 \<or> n = 186 \<or>
     (188 \<le> n \<and> n \<le> 190) \<or> (192 \<le> n \<and> n \<le> 214) \<or>
     (216 \<le> n \<and> n \<le> 246) \<or> (248 \<le> n \<and> n \<le> 255))"

definition lower_char :: "char \<Rightarrow> char" where
  "lower_char c = (let n = code_point c in
     if (65 \<le> n \<and> n \<le> 90) \<or> (192 \<le> n \<and> n \<le> 214) \<or> (216 \<le> n \<and> n \<le> 222)
     then char_of (n + 32) else c)"

definition lower :: "string \<Rightarrow> string" where
  "lower s = map lower_char s"

text \<open>\<open>w in t\<close> on strings: \<open>w\<close> occurs in \<open>t\<close> as a contiguous run.\<close>

fun py_in :: "string \<Rightarrow> string \<Rightarrow> bool" where
  "py_in w [] = (w = [])"
| "py_in w (c # cs) = (prefix w (c # cs) \<or> py_in w cs)"

text \<open>\<open>str.strip()\<close>: whitespace is removed at both ends.\<close>

definition strip :: "string \<Rightarrow> string" where
  "strip s = rev (dropWhile isspace (rev (dropWhile isspace s)))"

text \<open>\<open>int(x)\<close> on a float truncates toward zero.\<close>

definition py_int :: "real \<Rightarrow> int" where
  "py_int x = (if 0 \<le> x then \<lfloor>x\<rfloor> else \<lceil>x\<rceil>)"

text \<open>
  A Python float is an IEEE 754 double, held here as the real number it denotes. An
  arithmetic operation returns the exact result rounded to the nearest double, ties to
  the even significand: a double is an integer multiple of \<open>2 ^ e\<close>, where \<open>e\<close> is the
  exponent of the value less 52 and at least \<open>-1074\<close>. A result of magnitude \<open>2 ^ 1024\<close> or
  more is an infinity, on which \<open>int\<close> raises \<open>OverflowError\<close>.
\<close>

definition pow2 :: "int \<Rightarrow> real" where
  "pow2 e = (if 0 \<le> e then 2 ^ nat e else 1 / 2 ^ nat (- e))"

definition round_half_even :: "real \<Rightarrow> int" where
  "round_half_even q =
     (let f = \<lfloor>q\<rfloor>; r = q - of_int f
      in if r < 1 / 2 then f
         else if 1 / 2 < r then f + 1
         else if even f then f else f + 1)"

definition double_round :: "real \<Rightarrow> real" where
  "double_round x =
     (if x = 0 then 0
      else
        (let e = max (\<lfloor>log 2 \<bar>x\<bar>\<rfloor> - 52) (- 1074)
         in of_int (round_half_even (x / pow2 e)) * pow2 e))"

definition float_mul :: "real \<Rightarrow> real \<Rightarrow> real" where
  "float_mul a b = double_round (a * b)"

definition float_add :: "real \<Rightarrow> real \<Rightarrow> real" where
  "float_add a b = double_round (a + b)"

definition int_of_float :: "real \<Rightarrow> error + int" where
  "int_of_float x = (if 2 ^ 1024 \<le> \<bar>x\<bar> then Inl OverflowError else Inr (py_int x))"

section \<open>engine.py: RiskEngine\<close>

text \<open>
  The zero-shot classifier is a callable held by the engine: given the text and the
  candidate labels it returns the labels sorted by score and the scores, or raises.
  The sector rules and the gazetteer are dictionaries read from JSON; they are kept as
  association lists in the order \<open>.items()\<close> iterates them (insertion order).
  A gazetteer entry is a dictionary as JSON gives it: a key may be absent, and the value
  under a key is a number or \<open>null\<close> (\<open>None\<close>).
\<close>

record classification =
  labels :: "string list"
  scores :: "real list"

type_synonym coords = "string \<rightharpoonup> real option"

record RiskEngine =
  classifier :: "string \<Rightarrow> string list \<Rightarrow> error + classification"
  sector_rules :: "(string \<times> string list) list"
  locations :: "(string \<times> coords) list"

definition risk_labels :: "string list" where
  "risk_labels =
     [''Critical Unrest'', ''Natural Disaster'', ''Economic Crisis'',
      ''Political Instability'', ''Supply Chain Disruption'',
      ''Normal Business Operation'', ''Positive Growth'']"

subsection \<open>preprocess\<close>

text \<open>
  \<open>re.sub(r'[^\w\s.,!?\'"-]', '', text)\<close> keeps exactly the characters of the class;
  \<open>re.sub(r'\s+', ' ', text)\<close> replaces every maximal run of whitespace by one space.
\<close>

definition kept_char :: "char \<Rightarrow> bool" where
  "kept_char c = (isalnum c \<or> c = CHR ''_'' \<or> isspace c \<or>
     c = CHR ''.'' \<or> c = CHR '','' \<or> c = CHR ''!'' \<or> c = CHR ''?'' \<or>
     c = CHR 0x27 \<or> c = CHR 0x22 \<or> c = CHR ''-'')"

function collapse_ws :: "string \<Rightarrow> string" where
  "collapse_ws [] = []"
| "collapse_ws (c # cs) =
     (if isspace c then CHR '' '' # collapse_ws (dropWhile isspace cs)
      else c # collapse_ws cs)"
  by pat_completeness auto
termination
  by (relation "measure length") (auto simp: length_dropWhile_le less_Suc_eq_le)

text \<open>
  The first argument stands for the HTML parser of the imported library:
  \<open>get_text s\<close> is \<open>BeautifulSoup(s, "html.parser").get_text(separator=' ')\<close>.
  The raw text may be \<open>None\<close>.
\<close>

definition preprocess :: "(string \<Rightarrow> string) \<Rightarrow> string option \<Rightarrow> string" where
  "preprocess get_text text =
     (case text of
        None \<Rightarrow> []
      | Some t \<Rightarrow>
          if t = [] then []
          else strip (collapse_ws (filter kept_char (get_text t))))"

subsection \<open>detect_sector and detect_future_event\<close>

primrec any_keyword_in :: "string list \<Rightarrow> string \<Rightarrow> bool" where
  "any_keyword_in [] text_lower = False"
| "any_keyword_in (word # keywords) text_lower =
     (if py_in word text_lower then True else any_keyword_in keywords text_lower)"

primrec detect_sector_loop :: "(string \<times> string list) list \<Rightarrow> string \<Rightarrow> string" where
  "detect_sector_loop [] text_lower = ''GENERAL''"
| "detect_sector_loop (rule # rules) text_lower =
     (if any_keyword_in (snd rule) text_lower then fst rule
      else detect_sector_loop rules text_lower)"

definition detect_sector :: "RiskEngine \<Rightarrow> string \<Rightarrow> string" where
  "detect_sector self text = detect_sector_loop (sector_rules self) (lower text)"

definition future_keywords :: "string list" where
  "future_keywords =
     [''scheduled'', ''tomorrow'', ''next week'', ''planned'', ''to be'', ''upcoming'',
      ''postponed'', ''will be'', ''expected'']"

definition detect_future_event :: "string \<Rightarrow> int" where
  "detect_future_event text = (if any_keyword_in future_keywords (lower text) then 1 else 0)"

subsection \<open>analyze_risk\<close>

definition analyze_risk :: "RiskEngine \<Rightarrow> string \<Rightarrow> error + (string \<times> int)" where
  "analyze_risk self text =
     (case classifier self text risk_labels of
        Inl e \<Rightarrow> Inl e
      | Inr result \<Rightarrow>
          (case labels result of
             [] \<Rightarrow> Inl IndexError
           | top_label # _ \<Rightarrow>
               (case scores result of
                  [] \<Rightarrow> Inl IndexError
                | confidence # _ \<Rightarrow>
                    if top_label \<in> set [''Critical Unrest'', ''Natural Disaster'',
                                         ''Supply Chain Disruption'']
                    then map_sum id (Pair ''Critical'')
                           (int_of_float (float_add 80 (float_mul confidence 20)))
                    else if top_label \<in> set [''Economic Crisis'', ''Political Instability'']
                    then map_sum id (Pair ''Warning'')
                           (int_of_float (float_add 50 (float_mul confidence 29)))
                    else if top_label = ''Positive Growth''
                    then Inr (''Opportunity'', 0)
                    else Inr (''Info'', 10))))"

subsection \<open>get_location\<close>

text \<open>\<open>return coords['lat'], coords['lon']\<close>: a missing key raises \<open>KeyError\<close>.\<close>

definition coords_pair :: "coords \<Rightarrow> error + (real option \<times> real option)" where
  "coords_pair c =
     (case c ''lat'' of
        None \<Rightarrow> Inl (KeyError ''lat'')
      | Some la \<Rightarrow>
          (case c ''lon'' of
             None \<Rightarrow> Inl (KeyError ''lon'')
           | Some lo \<Rightarrow> Inr (la, lo)))"

primrec get_location_loop ::
  "(string \<times> coords) list \<Rightarrow> string \<Rightarrow> error + (real option \<times> real option)" where
  "get_location_loop [] text = Inr (None, None)"
| "get_location_loop (place # places) text =
     (if py_in (fst place) text then coords_pair (snd place)
      else get_location_loop places text)"

definition get_location ::
  "RiskEngine \<Rightarrow> string \<Rightarrow> error + (real option \<times> real option)" where
  "get_location self text = get_location_loop (locations self) text"

section \<open>database.py: NewsDatabase\<close>

text \<open>
  The dictionary handed to \<open>save_article\<close> is a record with the ten named bindings of
  the INSERT statement. \<open>risk_score\<close>, \<open>lat\<close> and \<open>lon\<close> may be \<open>None\<close> (SQL NULL).
  A stored row adds the AUTOINCREMENT key (the column \<open>id\<close>).
\<close>

record article =
  title :: string
  link :: string
  published :: string
  source :: string
  category :: string
  risk_score :: "int option"
  sector :: string
  lat :: "real option"
  lon :: "real option"
  is_upcoming :: int

record row = article +
  row_id :: nat

text \<open>What the process prints, line by line.\<close>

datatype log_line =
    Saved string int string
  | DbError string
  | FeedError string error

text \<open>
  The state the pipeline acts on: the table \<open>articles\<close> of the database file in
  insertion order, the next AUTOINCREMENT key, and the console.
\<close>

record sys =
  articles :: "row list"
  next_id :: nat
  console :: "log_line list"

text \<open>
  What the SQLite library does during one call of \<open>save_article\<close>: each of
  \<open>sqlite3.connect\<close>, \<open>cursor.execute\<close> and \<open>connection.commit\<close> may raise (I/O error,
  disk full, locked database); \<open>None\<close> means the call succeeds.
\<close>

record sqlite_faults =
  connect_error :: "string option"
  execute_error :: "string option"
  commit_error :: "string option"

definition healthy :: sqlite_faults where
  "healthy = \<lparr>connect_error = None, execute_error = None, commit_error = None\<rparr>"

text \<open>
  \<open>INSERT OR IGNORE\<close> under the constraint \<open>link TEXT UNIQUE\<close>: a row whose link is
  stored already is ignored; the result carries \<open>cursor.rowcount\<close>. The AUTOINCREMENT
  key is taken before the constraint is checked, so an ignored row uses one up.
\<close>

definition insert_or_ignore :: "sys \<Rightarrow> article \<Rightarrow> sys \<times> nat" where
  "insert_or_ignore st data =
     (if \<exists>r \<in> set (articles st). link r = link data
      then (st\<lparr>next_id := next_id st + 1\<rparr>, 0)
      else (st\<lparr>articles := articles st @ [article.extend data (row.fields (next_id st))],
               next_id := next_id st + 1\<rparr>, 1))"

text \<open>
  The \<open>finally\<close> block: \<open>conn.commit()\<close>, then \<open>conn.close()\<close>. When the commit raises,
  the exception replaces the pending return value and the uncommitted statement is lost
  with the connection; what was printed stays printed.
\<close>

definition commit_and_close ::
  "sqlite_faults \<Rightarrow> sys \<Rightarrow> sys \<Rightarrow> bool \<Rightarrow> (error + bool) \<times> sys" where
  "commit_and_close io before after result =
     (case commit_error io of
        Some m \<Rightarrow> (Inl (SqliteError m), before\<lparr>console := console after\<rparr>)
      | None \<Rightarrow> (Inr result, after))"

definition save_article :: "sqlite_faults \<Rightarrow> sys \<Rightarrow> article \<Rightarrow> (error + bool) \<times> sys" where
  "save_article io st data =
     (case connect_error io of
        Some m \<Rightarrow> (Inl (SqliteError m), st)
      | None \<Rightarrow>
          (case execute_error io of
             Some m \<Rightarrow>
               commit_and_close io st (st\<lparr>console := console st @ [DbError m]\<rparr>) False
           | None \<Rightarrow>
               (let (st', rowcount) = insert_or_ignore st data
                in commit_and_close io st st' (rowcount > 0))))"

section \<open>pipeline.py: Pipeline\<close>

text \<open>
  A feed entry has the attributes \<open>title\<close> and \<open>link\<close> and the key \<open>published\<close>; each
  may be missing (\<open>None\<close>). A configured source is a dictionary read from JSON; the code
  reads its keys \<open>url\<close> and \<open>name\<close>, and either may be absent.
\<close>

record entry =
  entry_title :: "string option"
  entry_link :: "string option"
  entry_published :: "string option"

type_synonym source_config = "string \<rightharpoonup> string"

text \<open>
  The pipeline holds the engine. The libraries it calls are fields as well:
  \<open>html_text\<close> is the HTML parser of \<open>preprocess\<close>, \<open>feedparser_parse u\<close> gives
  \<open>feedparser.parse(u).entries\<close> or raises, and \<open>sqlite st data\<close> says how the SQLite
  library behaves when \<open>data\<close> is saved in state \<open>st\<close>.
\<close>

record Pipeline =
  engine :: RiskEngine
  html_text :: "string \<Rightarrow> string"
  feedparser_parse :: "string \<Rightarrow> error + entry list"
  sqlite :: "sys \<Rightarrow> article \<Rightarrow> sqlite_faults"

text \<open>
  The body of the loop over \<open>feed.entries[:5]\<close>, for one entry. The dictionary
  \<open>article_data\<close> is built key by key, so \<open>entry.link\<close> is read before
  \<open>source_config['name']\<close>.
\<close>

definition process_entry ::
  "Pipeline \<Rightarrow> source_config \<Rightarrow> entry \<Rightarrow> sys \<Rightarrow> (error + unit) \<times> sys" where
  "process_entry self source_cfg e st =
     (case entry_title e of
        None \<Rightarrow> (Inl (AttributeError ''title''), st)
      | Some raw_title \<Rightarrow>
          (let clean_title = preprocess (html_text self) (Some raw_title) in
           case analyze_risk (engine self) clean_title of
             Inl err \<Rightarrow> (Inl err, st)
           | Inr (cat, risk) \<Rightarrow>
               (let sec = detect_sector (engine self) clean_title in
                case get_location (engine self) clean_title of
                  Inl err \<Rightarrow> (Inl err, st)
                | Inr (la, lo) \<Rightarrow>
                    (let upcoming = detect_future_event clean_title in
                     case entry_link e of
                       None \<Rightarrow> (Inl (AttributeError ''link''), st)
                     | Some l \<Rightarrow>
                         (case source_cfg ''name'' of
                            None \<Rightarrow> (Inl (KeyError ''name''), st)
                          | Some source_name \<Rightarrow>
                              (let article_data =
                                     \<lparr>title = clean_title, link = l,
                                      published = (case entry_published e of
                                                     None \<Rightarrow> ''Unknown'' | Some p \<Rightarrow> p),
                                      source = source_name, category = cat,
                                      risk_score = Some risk, sector = sec,
                                      lat = la, lon = lo, is_upcoming = upcoming\<rparr>
                               in case save_article (sqlite self st article_data) st
                                         article_data of
                                    (Inl err, st') \<Rightarrow> (Inl err, st')
                                  | (Inr saved, st') \<Rightarrow>
                                      (Inr (),
                                       if saved
                                       then st'\<lparr>console := console st' @
                                              [Saved sec risk (take 40 clean_title)]\<rparr>
                                       else st')))))))"

fun process_entries ::
  "Pipeline \<Rightarrow> source_config \<Rightarrow> entry list \<Rightarrow> sys \<Rightarrow> (error + unit) \<times> sys" where
  "process_entries self source_cfg [] st = (Inr (), st)"
| "process_entries self source_cfg (e # es) st =
     (case process_entry self source_cfg e st of
        (Inl err, st') \<Rightarrow> (Inl err, st')
      | (Inr u, st') \<Rightarrow> process_entries self source_cfg es st')"

text \<open>The \<open>try\<close> block of \<open>process_feed\<close>.\<close>

definition process_feed_body ::
  "Pipeline \<Rightarrow> source_config \<Rightarrow> sys \<Rightarrow> (error + unit) \<times> sys" where
  "process_feed_body self source_cfg st =
     (case source_cfg ''url'' of
        None \<Rightarrow> (Inl (KeyError ''url''), st)
      | Some u \<Rightarrow>
          (case feedparser_parse self u of
             Inl err \<Rightarrow> (Inl err, st)
           | Inr entries \<Rightarrow>
               if entries = [] then (Inr (), st)
               else process_entries self source_cfg (take 5 entries) st))"

text \<open>
  \<open>process_feed\<close>: the \<open>try\<close> block under \<open>except Exception\<close>. The handler prints a line
  that names the source and returns; to build the line it reads
  \<open>source_config['name']\<close>, and when that key is absent the \<open>KeyError\<close> leaves
  \<open>process_feed\<close> with nothing printed.
\<close>

definition process_feed ::
  "Pipeline \<Rightarrow> source_config \<Rightarrow> sys \<Rightarrow> (error + unit) \<times> sys" where
  "process_feed self source_cfg st =
     (case process_feed_body self source_cfg st of
        (Inl err, st') \<Rightarrow>
          (case source_cfg ''name'' of
             None \<Rightarrow> (Inl (KeyError ''name''), st')
           | Some source_name \<Rightarrow>
               (Inr (), st'\<lparr>console := console st' @ [FeedError source_name err]\<rparr>))
      | (Inr u, st') \<Rightarrow> (Inr (), st'))"

text \<open>
  One cycle of \<open>run\<close>: \<open>for source in feed_list: self.process_feed(source)\<close>. Nothing
  in \<open>run\<close> catches an exception that leaves \<open>process_feed\<close>: it ends the loop and the
  process.
\<close>

fun run_sources :: "Pipeline \<Rightarrow> source_config list \<Rightarrow> sys \<Rightarrow> (error + unit) \<times> sys" where
  "run_sources self [] st = (Inr (), st)"
| "run_sources self (source_cfg # feed_list) st =
     (case process_feed self source_cfg st of
        (Inl err, st') \<Rightarrow> (Inl err, st')
      | (Inr u, st') \<Rightarrow> run_sources self feed_list st')"

section \<open>analytics.py: RiskAnalytics\<close>

text \<open>
  The snapshot \<open>self.df\<close> is the frame \<open>fetch_latest\<close> returns: the stored rows, newest
  first, with the column \<open>published_dt\<close> added, a timestamp in nanoseconds since the
  epoch (UTC) or \<open>None\<close> for \<open>NaT\<close>. A missing \<open>risk_score\<close> is \<open>NaN\<close> in the frame.
\<close>

record frame_row = row +
  published_dt :: "int option"

definition hour :: int where
  "hour = 3600000000000"

definition get_data :: "frame_row list \<Rightarrow> string option \<Rightarrow> frame_row list" where
  "get_data df sector_filter =
     (case sector_filter of
        None \<Rightarrow> df
      | Some s \<Rightarrow> if s = [] \<or> s = ''All'' then df else filter (\<lambda>r. sector r = s) df)"

text \<open>\<open>Series.mean()\<close> skips missing values and is \<open>NaN\<close> (\<open>None\<close>) when nothing is left.\<close>

definition series_mean :: "int option list \<Rightarrow> real option" where
  "series_mean xs =
     (let vs = map the (filter (\<lambda>x. x \<noteq> None) xs)
      in if vs = [] then None else Some (real_of_int (sum_list vs) / real (length vs)))"

definition fillna0 :: "real option \<Rightarrow> real" where
  "fillna0 v = (case v of None \<Rightarrow> 0 | Some x \<Rightarrow> x)"

subsection \<open>get_national_indicators\<close>

text \<open>The first argument is \<open>pd.Timestamp.now(tz='UTC')\<close>.\<close>

definition get_national_indicators ::
  "int \<Rightarrow> frame_row list \<Rightarrow> string option \<Rightarrow> int \<times> nat \<times> nat" where
  "get_national_indicators today frame sector_filter =
     (let df = get_data frame sector_filter in
      if df = [] then (0, 0, 0)
      else
        (let avg_risk = series_mean (map risk_score (take 50 df));
             stability = py_int (100 - (case avg_risk of Some m \<Rightarrow> m | None \<Rightarrow> 0));
             crit_count = length (filter (\<lambda>r. case risk_score r of
                                              Some v \<Rightarrow> v > 80 | None \<Rightarrow> False) df);
             volume =
               (if \<exists>r \<in> set df. published_dt r \<noteq> None
                then length (filter (\<lambda>r. case published_dt r of
                                           Some t \<Rightarrow> t > today - 24 * hour
                                         | None \<Rightarrow> False) df)
                else length df)
         in (stability, crit_count, volume)))"

subsection \<open>get_forecast\<close>

text \<open>
  \<open>set_index('published_dt')['risk_score'].resample('H').mean().fillna(0)\<close>: rows
  without a timestamp fall into no bin; the bins are the hours from the one of the
  earliest timestamp to the one of the latest, each labelled by its start; an hour with
  no score has mean \<open>NaN\<close>, filled with 0.
\<close>

definition stamped :: "frame_row list \<Rightarrow> (int \<times> int option) list" where
  "stamped df =
     map (\<lambda>r. (the (published_dt r), risk_score r)) (filter (\<lambda>r. published_dt r \<noteq> None) df)"

definition resample_hourly_mean :: "(int \<times> int option) list \<Rightarrow> (int \<times> real option) list" where
  "resample_hourly_mean xs =
     (if xs = [] then []
      else
        (let hs = map (\<lambda>p. fst p div hour) xs
         in map (\<lambda>h. (h * hour,
                        series_mean (map snd (filter (\<lambda>p. fst p div hour = h) xs))))
                [Min (set hs) .. Max (set hs)]))"

definition hourly_history :: "frame_row list \<Rightarrow> (int \<times> real) list" where
  "hourly_history df = map (\<lambda>p. (fst p, fillna0 (snd p))) (resample_hourly_mean (stamped df))"

text \<open>
  \<open>LinearRegression().fit(X, y)\<close> with \<open>X = 0, 1, ..., len(y) - 1\<close>: ordinary least squares
  on one feature, as coefficient and intercept; \<open>predict\<close> evaluates the line.
\<close>

definition linreg_fit :: "real list \<Rightarrow> real \<times> real" where
  "linreg_fit y =
     (let n = real (length y);
          X = map real [0 ..< length y];
          x_mean = sum_list X / n;
          y_mean = sum_list y / n;
          sxx = sum_list (map (\<lambda>x. (x - x_mean) * (x - x_mean)) X);
          sxy = sum_list (map (\<lambda>p. (fst p - x_mean) * (snd p - y_mean)) (zip X y));
          coef = sxy / sxx
      in (coef, y_mean - coef * x_mean))"

definition linreg_predict :: "real \<times> real \<Rightarrow> real \<Rightarrow> real" where
  "linreg_predict model x = snd model + fst model * x"

record chart_row =
  chart_time :: int
  actual_trend :: "real option"
  ai_forecast :: "real option"

definition get_forecast :: "frame_row list \<Rightarrow> string option \<Rightarrow> chart_row list option" where
  "get_forecast frame sector_filter =
     (let df = get_data frame sector_filter in
      if df = [] then None
      else if \<not> (\<exists>r \<in> set df. published_dt r \<noteq> None) then None
      else
        (let history = hourly_history df in
         if length history < 3 then None
         else
           (let y = map snd history;
                model = linreg_fit y;
                predictions = map (\<lambda>x. linreg_predict model (real x))
                                  [length y ..< length y + 4];
                last_date = fst (last history);
                future_dates = map (\<lambda>i. last_date + (int i + 1) * hour) [0 ..< 4]
            in Some
                 (map (\<lambda>p. \<lparr>chart_time = fst p, actual_trend = Some (snd p),
                             ai_forecast = (if fst p = last_date
                                            then Some (snd (last history)) else None)\<rparr>)
                      history
                  @ map (\<lambda>p. \<lparr>chart_time = fst p, actual_trend = None,
                               ai_forecast = Some (snd p)\<rparr>)
                        (zip future_dates predictions)))))"

section \<open>Example data\<close>

text \<open>
  Concrete inputs for the examples that close the properties below: a stand-in for the
  HTML parser that keeps the text outside \<open><...>\<close> and puts a space for each tag, an
  engine with one sector rule and a gazetteer of two places, a pipeline over three
  sources of which the second cannot be fetched, an empty store and one article.
\<close>

fun drop_tags :: "bool \<Rightarrow> string \<Rightarrow> string" where
  "drop_tags in_tag [] = []"
| "drop_tags in_tag (c # cs) =
     (if in_tag then (if c = CHR ''>'' then CHR '' '' # drop_tags False cs
                      else drop_tags True cs)
      else if c = CHR ''<'' then drop_tags True cs
      else c # drop_tags False cs)"

definition demo_engine :: RiskEngine where
  "demo_engine =
     \<lparr>classifier = (\<lambda>t ls. Inr \<lparr>labels = [''Critical Unrest'', ''Economic Crisis''],
                                   scores = [1 / 2, 1 / 4]\<rparr>),
      sector_rules = [(''INFRASTRUCTURE'', [''riot''])],
      locations = [(''Galle'', [''lat'' \<mapsto> Some (603 / 100), ''lon'' \<mapsto> Some (8022 / 100)]),
                   (''Colombo'', [''lat'' \<mapsto> Some (69 / 10), ''lon'' \<mapsto> Some (798 / 10)])]\<rparr>"

text \<open>
  An engine whose classifier is sure up to the last bit: the confidence is the largest
  double below 1.
\<close>

definition edge_confidence :: real where
  "edge_confidence = 1 - 1 / 2 ^ 53"

definition edge_engine :: RiskEngine where
  "edge_engine =
     \<lparr>classifier = (\<lambda>t ls. Inr \<lparr>labels = [''Critical Unrest''], scores = [edge_confidence]\<rparr>),
      sector_rules = [], locations = []\<rparr>"

text \<open>An engine whose classifier finds an economic crisis, with confidence 1/4.\<close>

definition warning_engine :: RiskEngine where
  "warning_engine =
     \<lparr>classifier = (\<lambda>t ls. Inr \<lparr>labels = [''Economic Crisis'', ''Critical Unrest''],
                                   scores = [1 / 4, 1 / 8]\<rparr>),
      sector_rules = [], locations = []\<rparr>"

definition demo_entry :: "string \<Rightarrow> entry" where
  "demo_entry l =
     \<lparr>entry_title = Some ''<b>Riots erupt</b> in Colombo, scheduled curfew tomorrow'',
      entry_link = Some l, entry_published = None\<rparr>"

definition demo_pipeline :: Pipeline where
  "demo_pipeline =
     \<lparr>engine = demo_engine, html_text = drop_tags False,
      feedparser_parse =
        (\<lambda>u. if u = ''http://a'' then Inr [demo_entry ''L1'']
              else if u = ''http://c'' then Inr [demo_entry ''L3'']
              else Inl (FetchError ''timed out'')),
      sqlite = (\<lambda>st data. healthy)\<rparr>"







definition demo_sources :: "source_config list" where
  "demo_sources =
     [[''name'' \<mapsto> ''A'', ''url'' \<mapsto> ''http://a''],
      [''name'' \<mapsto> ''B'', ''url'' \<mapsto> ''http://b''],
      [''name'' \<mapsto> ''C'', ''url'' \<mapsto> ''http://c'']]"

definition empty_store :: sys where
  "empty_store = \<lparr>articles = [], next_id = 1, console = []\<rparr>"

definition demo_article :: article where
  "demo_article =
     \<lparr>title = ''Riots erupt in Colombo'', link = ''L1'', published = ''Unknown'',
      source = ''A'', category = ''Critical'', risk_score = Some 90,
      sector = ''INFRASTRUCTURE'', lat = Some (69 / 10), lon = Some (798 / 10),
      is_upcoming = 0\<rparr>"

text \<open>
  Rows of a snapshot (sector FINANCE unless changed), a frame of two sectors with a
  missing score, and a frame of three hourly buckets with a constant score, followed by
  a later row of another sector.
\<close>

definition demo_row :: "int option \<Rightarrow> int option \<Rightarrow> frame_row" where
  "demo_row risk dt =
     \<lparr>title = ''Fuel prices rise'', link = ''L'', published = ''Unknown'', source = ''A'',
      category = ''Info'', risk_score = risk, sector = ''FINANCE'', lat = None, lon = None,
      is_upcoming = 0, row_id = 1, published_dt = dt\<rparr>"

definition mixed_frame :: "frame_row list" where
  "mixed_frame =
     [demo_row (Some 85) None, (demo_row (Some 99) None)\<lparr>sector := ''LABOR''\<rparr>,
      demo_row None None, demo_row (Some 10) None]"

definition flat_frame :: "frame_row list" where
  "flat_frame =
     [(demo_row (Some 90) (Some (9 * hour)))\<lparr>sector := ''LABOR''\<rparr>,
      demo_row (Some 40) (Some (2 * hour + 7)), demo_row (Some 40) (Some (hour + 5)),
      demo_row (Some 40) (Some 10)]"

section \<open>Properties\<close>


subsection \<open>Auxiliary facts on the text primitives\<close>

lemma py_in_iff_sublist: "py_in w t = sublist w t"
  by (induction t) (auto simp: sublist_Cons_right)

lemma any_keyword_in_iff: "any_keyword_in kws t = (\<exists>w \<in> set kws. sublist w t)"
  by (induction kws) (auto simp: py_in_iff_sublist)

subsection \<open>Auxiliary facts on double rounding\<close>

text \<open>
  Rounding to the nearest double never crosses an integer below \<open>2 ^ 53\<close>: such an
  integer is a double, whatever the exponent of the value being rounded.
\<close>

lemma round_half_even_le: "q \<le> of_int m \<Longrightarrow> round_half_even q \<le> m"
proof -
  assume h: "q \<le> of_int m"
  show ?thesis
  proof (cases "q = of_int m")
    case True
    then show ?thesis by (simp add: round_half_even_def)
  next
    case False
    with h have "q < of_int m" by simp
    then have "\<lfloor>q\<rfloor> < m" by (simp add: floor_less_iff)
    then show ?thesis by (simp add: round_half_even_def Let_def)
  qed
qed

lemma round_half_even_ge: "of_int m \<le> q \<Longrightarrow> m \<le> round_half_even q"
proof -
  assume "of_int m \<le> q"
  then have "m \<le> \<lfloor>q\<rfloor>" by (simp add: le_floor_iff)
  then show ?thesis by (simp add: round_half_even_def Let_def)
qed

lemma floor_log2_small:
  assumes "0 < x" and "x < 2 ^ 53"
  shows "\<lfloor>log 2 x\<rfloor> \<le> 52"
proof -
  have "log 2 x < 53"
    using assms less_powr_iff [of 2 x 53] powr_realpow [of 2 53]
    by (simp add: log_less_iff)
  then have "\<lfloor>log 2 x\<rfloor> < 53" by (simp add: floor_less_iff)
  then show ?thesis by simp
qed

lemma double_round_bounds:
  assumes "0 \<le> a" and "of_int a \<le> x" and "x \<le> of_int b" and "b < 2 ^ 53"
  shows "of_int a \<le> double_round x \<and> double_round x \<le> of_int b"
proof (cases "x = 0")
  case True
  with assms show ?thesis by (simp add: double_round_def)
next
  case False
  with assms(1,2) have pos: "0 < x" by (smt (verit) of_int_nonneg)
  have "x < 2 ^ 53"
  proof -
    have "real_of_int b < 2 ^ 53" using assms(4) by (metis of_int_less_iff of_int_numeral of_int_power)
    with assms(3) show ?thesis by simp
  qed
  from floor_log2_small [OF pos this]
  have k: "\<lfloor>log 2 \<bar>x\<bar>\<rfloor> \<le> 52" using pos by simp
  define e where "e = max (\<lfloor>log 2 \<bar>x\<bar>\<rfloor> - 52) (- 1074)"
  define n where "n = nat (- e)"
  have e0: "e \<le> 0" using k by (simp add: e_def)
  have p: "pow2 e = 1 / 2 ^ n"
  proof (cases "e = 0")
    case True
    then show ?thesis by (simp add: pow2_def n_def)
  next
    case False
    with e0 show ?thesis by (simp add: pow2_def n_def)
  qed
  have q: "x / pow2 e = x * 2 ^ n" by (simp add: p)
  have lo: "of_int (a * 2 ^ n) \<le> x * 2 ^ n" using assms(2) by simp
  have hi: "x * 2 ^ n \<le> of_int (b * 2 ^ n)" using assms(3) by simp
  from round_half_even_ge [OF lo] round_half_even_le [OF hi]
  have r: "a * 2 ^ n \<le> round_half_even (x * 2 ^ n)" "round_half_even (x * 2 ^ n) \<le> b * 2 ^ n"
    by simp_all
  have dr: "double_round x = of_int (round_half_even (x * 2 ^ n)) / 2 ^ n"
    using False by (simp add: double_round_def e_def [symmetric] q p)
  have "of_int a \<le> of_int (round_half_even (x * 2 ^ n)) / (2 ^ n :: real)"
  proof -
    have "of_int (a * 2 ^ n) \<le> (of_int (round_half_even (x * 2 ^ n)) :: real)"
      using r(1) by (simp only: of_int_le_iff)
    then show ?thesis by (simp add: pos_le_divide_eq)
  qed
  moreover have "of_int (round_half_even (x * 2 ^ n)) / (2 ^ n :: real) \<le> of_int b"
  proof -
    have "(of_int (round_half_even (x * 2 ^ n)) :: real) \<le> of_int (b * 2 ^ n)"
      using r(2) by (simp only: of_int_le_iff)
    then show ?thesis by (simp add: pos_divide_le_eq)
  qed
  ultimately show ?thesis by (simp add: dr)
qed

lemma double_round_int:
  "0 \<le> a \<Longrightarrow> a < 2 ^ 53 \<Longrightarrow> double_round (of_int a) = of_int a"
  using double_round_bounds [of a "of_int a" a] by simp

lemma floor_log2_eq:
  assumes "2 ^ n \<le> x" and "x < 2 ^ (n + 1)"
  shows "\<lfloor>log 2 x\<rfloor> = int n"
proof -
  have pos: "0 < x" using assms(1) by (smt (verit) zero_less_power)
  have "2 powr (real_of_int (int n)) \<le> x \<and> x < 2 powr (real_of_int (int n + 1))"
    using assms powr_realpow [of 2 n] powr_realpow [of 2 "n + 1"]
    by (simp add: add.commute)
  with floor_log_eq_powr_iff [of x 2 "int n"] pos show ?thesis by simp
qed

lemma float_affine:
  fixes c :: real and base k :: int
  assumes "0 \<le> c" and "c \<le> 1" and "0 \<le> base" and "0 \<le> k" and "base + k + 1 < 2 ^ 53"
  defines "v \<equiv> float_add (of_int base) (float_mul c (of_int k))"
  shows "of_int base \<le> v" and "v \<le> of_int (base + k)"
    and "\<lfloor>of_int base + c * of_int k\<rfloor> \<le> \<lfloor>v\<rfloor>"
    and "\<lfloor>v\<rfloor> \<le> \<lfloor>of_int base + c * of_int k\<rfloor> + 1"
proof -
  define a where "a = \<lfloor>c * of_int k\<rfloor>"
  define y where "y = float_mul c (of_int k)"
  have ck: "0 \<le> c * of_int k" "c * of_int k \<le> of_int k"
    using assms(1,2,4) by (simp_all add: mult_left_le_one_le)
  have a0: "0 \<le> a" and ak: "a \<le> k"
    using ck by (simp_all add: a_def le_floor_iff floor_le_iff)
  have al: "of_int a \<le> c * of_int k"
    unfolding a_def by (rule of_int_floor_le)
  have au: "c * of_int k \<le> of_int (a + 1)"
    unfolding a_def using floor_correct [of "c * of_int k"] by linarith
  have small: "a + 1 < 2 ^ 53" "k < 2 ^ 53" "base + a + 1 < 2 ^ 53" "base + k < 2 ^ 53"
    using ak assms(3,4,5) by simp_all
  have y1: "of_int a \<le> y" "y \<le> of_int (a + 1)"
    using double_round_bounds [OF a0 al au small(1)] by (simp_all add: y_def float_mul_def)
  have y2: "0 \<le> y" "y \<le> of_int k"
    using double_round_bounds [of 0 "c * of_int k" k] ck small(2)
    by (simp_all add: y_def float_mul_def)
  have v: "v = double_round (of_int base + y)"
    by (simp add: v_def y_def float_add_def)
  have v1: "of_int (base + a) \<le> v" "v \<le> of_int (base + a + 1)"
    using double_round_bounds [of "base + a" "of_int base + y" "base + a + 1"]
      y1 a0 assms(3) small(3)
    by (simp_all add: v)
  have v2: "of_int base \<le> v" "v \<le> of_int (base + k)"
    using double_round_bounds [of base "of_int base + y" "base + k"] y2 assms(3) small(4)
    by (simp_all add: v)
  show "of_int base \<le> v" and "v \<le> of_int (base + k)"
    using v2 by simp_all
  have ex: "\<lfloor>of_int base + c * of_int k\<rfloor> = base + a"
    by (simp add: a_def)
  show "\<lfloor>of_int base + c * of_int k\<rfloor> \<le> \<lfloor>v\<rfloor>"
    unfolding ex using v1(1) by (simp only: le_floor_iff)
  show "\<lfloor>v\<rfloor> \<le> \<lfloor>of_int base + c * of_int k\<rfloor> + 1"
    unfolding ex using v1(2) by (simp only: floor_le_iff)
qed

text \<open>
  A single-precision value is \<open>m / 2 ^ j\<close> with \<open>m < 2 ^ 24\<close> and \<open>j \<le> 149\<close>. Its product
  with a small integer is a double, and the sum with a small base is either a double or
  so close above the base that rounding cannot reach the next integer.
\<close>

lemma floor_log2_below:
  assumes "0 < x" and "x * 2 ^ p < 2 ^ 53"
  shows "\<lfloor>log 2 x\<rfloor> \<le> 52 - int p"
proof -
  have "log 2 (x * 2 ^ p) < 53"
    using assms less_powr_iff [of 2 "x * 2 ^ p" 53] powr_realpow [of 2 53]
    by (simp add: log_less_iff)
  moreover have "log 2 (x * 2 ^ p) = log 2 x + real p"
    using assms(1) by (simp add: log_mult log_nat_power)
  ultimately have "log 2 x < 53 - real p" by simp
  then have "log 2 x < of_int (53 - int p)" by simp
  then have "\<lfloor>log 2 x\<rfloor> < 53 - int p" by (simp only: floor_less_iff)
  then show ?thesis by simp
qed

lemma double_round_dyadic_bounds:
  assumes "0 \<le> a" and "of_int a / 2 ^ p \<le> x" and "x \<le> of_int b / 2 ^ p"
    and "b < 2 ^ 53" and "p \<le> 1074"
  shows "of_int a / 2 ^ p \<le> double_round x \<and> double_round x \<le> of_int b / 2 ^ p"
proof (cases "x = 0")
  case True
  with assms(2,3) show ?thesis by (simp add: double_round_def)
next
  case False
  have "0 \<le> real_of_int a / 2 ^ p" using assms(1) by simp
  with assms(2) False have pos: "0 < x" by linarith
  have "x * 2 ^ p \<le> of_int b"
    using assms(3) by (simp add: pos_le_divide_eq)
  moreover have "real_of_int b < 2 ^ 53"
    using assms(4) by (metis of_int_less_iff of_int_numeral of_int_power)
  ultimately have "x * 2 ^ p < 2 ^ 53" by simp
  from floor_log2_below [OF pos this]
  have k: "\<lfloor>log 2 \<bar>x\<bar>\<rfloor> \<le> 52 - int p" using pos by simp
  define e where "e = max (\<lfloor>log 2 \<bar>x\<bar>\<rfloor> - 52) (- 1074)"
  define n where "n = nat (- e)"
  have ep: "e \<le> - int p" using k assms(5) by (simp add: e_def)
  then have e0: "e \<le> 0" by simp
  have np: "p \<le> n" using ep by (simp add: n_def)
  define d where "d = n - p"
  have nd: "n = d + p" using np by (simp add: d_def)
  have pw: "pow2 e = 1 / 2 ^ n"
  proof (cases "e = 0")
    case True
    then show ?thesis by (simp add: pow2_def n_def)
  next
    case False
    with e0 show ?thesis by (simp add: pow2_def n_def)
  qed
  have q: "x / pow2 e = x * 2 ^ n" by (simp add: pw)
  have lo: "of_int (a * 2 ^ d) \<le> x * 2 ^ n"
  proof -
    have "of_int a \<le> x * 2 ^ p" using assms(2) by (simp add: pos_divide_le_eq)
    then have "of_int a * 2 ^ d \<le> (x * 2 ^ p) * 2 ^ d"
      by (rule mult_right_mono) simp
    then show ?thesis by (simp add: nd power_add mult.assoc mult.commute)
  qed
  have hi: "x * 2 ^ n \<le> of_int (b * 2 ^ d)"
  proof -
    have "x * 2 ^ p \<le> of_int b" using assms(3) by (simp add: pos_le_divide_eq)
    then have "(x * 2 ^ p) * 2 ^ d \<le> of_int b * 2 ^ d"
      by (rule mult_right_mono) simp
    then show ?thesis by (simp add: nd power_add mult.assoc mult.commute)
  qed
  define r where "r = round_half_even (x * 2 ^ n)"
  from round_half_even_ge [OF lo] round_half_even_le [OF hi]
  have r: "a * 2 ^ d \<le> r" "r \<le> b * 2 ^ d"
    by (simp_all add: r_def)
  have dr: "double_round x = of_int r / 2 ^ n"
    using False by (simp add: double_round_def e_def [symmetric] q pw r_def)
  have "of_int a / 2 ^ p \<le> of_int r / (2 ^ n :: real)"
  proof -
    have "(of_int (a * 2 ^ d) :: real) \<le> of_int r"
      using r(1) by (simp only: of_int_le_iff)
    then have "real_of_int a * 2 ^ d \<le> of_int r" by simp
    then have "real_of_int a * 2 ^ d / 2 ^ n \<le> of_int r / 2 ^ n"
      by (rule divide_right_mono) simp
    moreover have "real_of_int a * 2 ^ d / 2 ^ n = of_int a / 2 ^ p"
      by (simp add: nd power_add)
    ultimately show ?thesis by simp
  qed
  moreover have "of_int r / (2 ^ n :: real) \<le> of_int b / 2 ^ p"
  proof -
    have "(of_int r :: real) \<le> of_int (b * 2 ^ d)"
      using r(2) by (simp only: of_int_le_iff)
    then have "of_int r \<le> real_of_int b * 2 ^ d" by simp
    then have "of_int r / 2 ^ n \<le> real_of_int b * 2 ^ d / 2 ^ n"
      by (rule divide_right_mono) simp
    moreover have "real_of_int b * 2 ^ d / 2 ^ n = of_int b / 2 ^ p"
      by (simp add: nd power_add)
    ultimately show ?thesis by simp
  qed
  ultimately show ?thesis by (simp add: dr)
qed

lemma double_round_dyadic:
  "0 \<le> a \<Longrightarrow> a < 2 ^ 53 \<Longrightarrow> p \<le> 1074 \<Longrightarrow>
   double_round (of_int a / 2 ^ p) = of_int a / 2 ^ p"
  using double_round_dyadic_bounds [of a p "of_int a / 2 ^ p" a] by simp

lemma float_affine_single:
  fixes base k :: int and m j :: nat
  assumes "c = real m / 2 ^ j" and "m < 2 ^ 24" and "j \<le> 149"
    and "0 \<le> base" and "base < 2 ^ 7" and "0 \<le> k" and "k \<le> 2 ^ 5"
  shows "\<lfloor>float_add (of_int base) (float_mul c (of_int k))\<rfloor> = \<lfloor>of_int base + c * of_int k\<rfloor>"
proof -
  have mk: "int m * k < 2 ^ 29"
  proof -
    have "int m * k \<le> int m * 2 ^ 5"
      using assms(7) by (intro mult_left_mono) simp_all
    also have "\<dots> < 2 ^ 24 * 2 ^ 5"
      using assms(2) by simp
    finally show ?thesis by simp
  qed
  have mk0: "0 \<le> int m * k" using assms(6) by simp
  have ck: "c * of_int k = of_int (int m * k) / 2 ^ j"
    by (simp add: assms(1))
  have y: "float_mul c (of_int k) = c * of_int k"
    unfolding float_mul_def ck
    using double_round_dyadic [of "int m * k" j] mk0 mk assms(3) by simp
  have x: "of_int base + c * of_int k = of_int (base * 2 ^ j + int m * k) / 2 ^ j"
    by (simp add: ck add_divide_distrib)
  show ?thesis
  proof (cases "j \<le> 45")
    case True
    have "base * 2 ^ j \<le> (2 ^ 7 - 1) * 2 ^ j"
      using assms(5) by (intro mult_right_mono) simp_all
    also have "\<dots> \<le> (2 ^ 7 - 1) * (2 ^ 45 :: int)"
      using True by (intro mult_left_mono power_increasing) simp_all
    finally have "base * 2 ^ j + int m * k < 2 ^ 53"
      using mk by simp
    moreover have "0 \<le> base * 2 ^ j + int m * k"
      using assms(4) mk0 by simp
    ultimately have "double_round (of_int base + c * of_int k) = of_int base + c * of_int k"
      unfolding x using double_round_dyadic [of "base * 2 ^ j + int m * k" j] assms(3)
      by simp
    then show ?thesis by (simp add: float_add_def y)
  next
    case False
    then have j46: "46 \<le> j" by simp
    have c0: "0 \<le> c * of_int k"
      using assms(1,6) by simp
    have "c * of_int k \<le> 1 / 2"
    proof -
      have "(2 :: real) ^ 46 \<le> 2 ^ j"
        using j46 by (intro power_increasing) simp_all
      moreover have "real_of_int (int m * k) \<le> 2 ^ 29"
        using mk by (metis less_imp_le of_int_le_iff of_int_numeral of_int_power)
      ultimately have "real_of_int (int m * k) * 2 \<le> 2 ^ j"
        by simp
      then show ?thesis
        unfolding ck by (simp add: pos_divide_le_eq)
    qed
    with c0 have b: "of_int (2 * base) / 2 ^ 1 \<le> of_int base + c * of_int k"
        "of_int base + c * of_int k \<le> of_int (2 * base + 1) / 2 ^ 1"
      by (simp_all add: add_divide_distrib)
    have "2 * base + 1 < 2 ^ 53" using assms(5) by simp
    from double_round_dyadic_bounds [OF _ b this] assms(4)
    have "of_int base \<le> double_round (of_int base + c * of_int k)"
      "double_round (of_int base + c * of_int k) \<le> of_int base + 1 / 2"
      by (simp_all add: add_divide_distrib)
    then have "\<lfloor>double_round (of_int base + c * of_int k)\<rfloor> = base"
      by (simp add: floor_eq_iff)
    moreover have "\<lfloor>of_int base + c * of_int k\<rfloor> = base"
      using c0 \<open>c * of_int k \<le> 1 / 2\<close> by (simp add: floor_eq_iff)
    ultimately show ?thesis by (simp add: float_add_def y)
  qed
qed

lemma int_of_float_small:
  "0 \<le> v \<Longrightarrow> v \<le> 100 \<Longrightarrow> int_of_float v = Inr \<lfloor>v\<rfloor>"
proof -
  assume h: "0 \<le> v" "v \<le> 100"
  have "(100::real) < 2 ^ 1024" by simp
  with h show ?thesis by (simp add: int_of_float_def py_int_def)
qed

subsection \<open>Normalisation of missing text\<close>

text \<open>
  Claim C10. For a raw input that is \<open>None\<close> or the empty string, \<open>preprocess\<close> returns
  the empty string; it does not raise, whatever the HTML parser would do.
\<close>

theorem preprocess_missing_text:
  "preprocess get_text None = [] \<and> preprocess get_text (Some []) = []"
  by (simp add: preprocess_def)


subsection \<open>Risk bands\<close>

lemma demo_analyze: "analyze_risk demo_engine t = Inr (''Critical'', 90)"
proof -
  have "float_mul (1 / 2) 20 = 10"
    using double_round_int [of 10] by (simp add: float_mul_def)
  moreover have "float_add 80 10 = 90"
    using double_round_int [of 90] by (simp add: float_add_def)
  moreover have "int_of_float 90 = Inr 90"
    using int_of_float_small [of 90] by simp
  ultimately show ?thesis
    by (simp add: analyze_risk_def demo_engine_def)
qed

text \<open>
  Claim C1, amended. Whenever the classifier answers with a top label \<open>L\<close> and a
  confidence \<open>c\<close> between 0 and 1, \<open>analyze_risk\<close> returns a category and a score. For
  the three high-impact labels these are \<open>Critical\<close> and the integer part of
  \<open>80 + c * 20\<close> as computed in double precision, which lies in 80..100, is
  \<open>floor (80 + 20 c)\<close> when \<open>c\<close> is a single-precision value and \<open>floor (80 + 20 c)\<close> or
  one more for any other \<open>c\<close>; for the two medium-impact labels \<open>Warning\<close> and the integer
  part of \<open>50 + c * 29\<close> as computed in double precision, which lies in 50..79, is
  \<open>floor (50 + 29 c)\<close> when \<open>c\<close> is a single-precision value and \<open>floor (50 + 29 c)\<close> or
  one more for any other \<open>c\<close>; for Positive Growth \<open>Opportunity\<close> and 0; for any other
  label \<open>Info\<close> and 10. The bands do not overlap: the score alone determines the
  category.
\<close>

theorem analyze_risk_bands:
  assumes "classifier self msg risk_labels = Inr result"
    and "labels result = L # ls" and "scores result = c # cs"
    and "0 \<le> c" and "c \<le> 1"
  shows "\<exists>cat score. analyze_risk self msg = Inr (cat, score) \<and>
    (L \<in> {''Critical Unrest'', ''Natural Disaster'', ''Supply Chain Disruption''} \<longrightarrow>
       cat = ''Critical'' \<and> score = \<lfloor>float_add 80 (float_mul c 20)\<rfloor> \<and>
       \<lfloor>80 + c * 20\<rfloor> \<le> score \<and> score \<le> \<lfloor>80 + c * 20\<rfloor> + 1 \<and>
       ((\<exists>m j :: nat. m < 2 ^ 24 \<and> j \<le> 149 \<and> c = real m / 2 ^ j) \<longrightarrow>
          score = \<lfloor>80 + c * 20\<rfloor>) \<and>
       80 \<le> score \<and> score \<le> 100) \<and>
    (L \<in> {''Economic Crisis'', ''Political Instability''} \<longrightarrow>
       cat = ''Warning'' \<and> score = \<lfloor>float_add 50 (float_mul c 29)\<rfloor> \<and>
       \<lfloor>50 + c * 29\<rfloor> \<le> score \<and> score \<le> \<lfloor>50 + c * 29\<rfloor> + 1 \<and>
       ((\<exists>m j :: nat. m < 2 ^ 24 \<and> j \<le> 149 \<and> c = real m / 2 ^ j) \<longrightarrow>
          score = \<lfloor>50 + c * 29\<rfloor>) \<and>
       50 \<le> score \<and> score \<le> 79) \<and>
    (L = ''Positive Growth'' \<longrightarrow> cat = ''Opportunity'' \<and> score = 0) \<and>
    (L \<notin> {''Critical Unrest'', ''Natural Disaster'', ''Supply Chain Disruption'',
            ''Economic Crisis'', ''Political Instability'', ''Positive Growth''} \<longrightarrow>
       cat = ''Info'' \<and> score = 10) \<and>
    (cat = ''Critical'' \<longleftrightarrow> 80 \<le> score) \<and>
    (cat = ''Warning'' \<longleftrightarrow> 50 \<le> score \<and> score \<le> 79) \<and>
    (cat = ''Opportunity'' \<longleftrightarrow> score = 0) \<and>
    (cat = ''Info'' \<longleftrightarrow> score = 10)"
proof -
  define V1 where "V1 = \<lfloor>float_add 80 (float_mul c 20)\<rfloor>"
  define V2 where "V2 = \<lfloor>float_add 50 (float_mul c 29)\<rfloor>"
  define E1 where "E1 = \<lfloor>80 + c * 20\<rfloor>"
  define E2 where "E2 = \<lfloor>50 + c * 29\<rfloor>"
  define S where "S \<longleftrightarrow> (\<exists>m j :: nat. m < 2 ^ 24 \<and> j \<le> 149 \<and> c = real m / 2 ^ j)"
  have s1: "S \<longrightarrow> V1 = E1"
    unfolding S_def V1_def E1_def
    using float_affine_single [of c _ _ 80 20] by auto
  have s2: "S \<longrightarrow> V2 = E2"
    unfolding S_def V2_def E2_def
    using float_affine_single [of c _ _ 50 29] by auto
  note f1 = float_affine [OF assms(4,5), of 80 20, simplified]
  note f2 = float_affine [OF assms(4,5), of 50 29, simplified]
  have hi: "int_of_float (float_add 80 (float_mul c 20)) = Inr V1"
      "80 \<le> V1" "V1 \<le> 100" "E1 \<le> V1" "V1 \<le> E1 + 1"
    using f1 int_of_float_small [of "float_add 80 (float_mul c 20)"]
    by (simp_all add: V1_def E1_def le_floor_iff floor_le_iff)
  have mid: "int_of_float (float_add 50 (float_mul c 29)) = Inr V2"
      "50 \<le> V2" "V2 \<le> 79" "E2 \<le> V2" "V2 \<le> E2 + 1"
    using f2 int_of_float_small [of "float_add 50 (float_mul c 29)"]
    by (simp_all add: V2_def E2_def le_floor_iff floor_le_iff)
  let ?A = "{''Critical Unrest'', ''Natural Disaster'', ''Supply Chain Disruption''}"
  let ?B = "{''Economic Crisis'', ''Political Instability''}"
  have "\<exists>cat score. analyze_risk self msg = Inr (cat, score) \<and>
    (L \<in> ?A \<longrightarrow> cat = ''Critical'' \<and> score = V1 \<and> E1 \<le> score \<and> score \<le> E1 + 1 \<and>
       (S \<longrightarrow> score = E1) \<and> 80 \<le> score \<and> score \<le> 100) \<and>
    (L \<in> ?B \<longrightarrow> cat = ''Warning'' \<and> score = V2 \<and> E2 \<le> score \<and> score \<le> E2 + 1 \<and>
       (S \<longrightarrow> score = E2) \<and> 50 \<le> score \<and> score \<le> 79) \<and>
    (L = ''Positive Growth'' \<longrightarrow> cat = ''Opportunity'' \<and> score = 0) \<and>
    (L \<notin> {''Critical Unrest'', ''Natural Disaster'', ''Supply Chain Disruption'',
            ''Economic Crisis'', ''Political Instability'', ''Positive Growth''} \<longrightarrow>
       cat = ''Info'' \<and> score = 10) \<and>
    (cat = ''Critical'' \<longleftrightarrow> 80 \<le> score) \<and>
    (cat = ''Warning'' \<longleftrightarrow> 50 \<le> score \<and> score \<le> 79) \<and>
    (cat = ''Opportunity'' \<longleftrightarrow> score = 0) \<and>
    (cat = ''Info'' \<longleftrightarrow> score = 10)"
  proof (cases "L \<in> ?A")
    case True
    then have "analyze_risk self msg = Inr (''Critical'', V1)"
      using assms(1-3) hi(1) by (auto simp: analyze_risk_def)
    with True hi(2-5) s1 show ?thesis by auto
  next
    case notA: False
    show ?thesis
    proof (cases "L \<in> ?B")
      case True
      then have "analyze_risk self msg = Inr (''Warning'', V2)"
        using assms(1-3) mid(1) by (auto simp: analyze_risk_def)
      with True mid(2-5) s2 show ?thesis by auto
    next
      case notB: False
      show ?thesis
      proof (cases "L = ''Positive Growth''")
        case True
        then have "analyze_risk self msg = Inr (''Opportunity'', 0)"
          using assms(1-3) by (auto simp: analyze_risk_def)
        with True show ?thesis by auto
      next
        case False
        then have "analyze_risk self msg = Inr (''Info'', 10)"
          using assms(1-3) notA notB by (auto simp: analyze_risk_def)
        with False notA notB show ?thesis by auto
      qed
    qed
  qed
  then show ?thesis by (simp only: V1_def V2_def E1_def E2_def S_def)
qed

theorem analyze_risk_bands_witness:
  "analyze_risk demo_engine ''Riots erupt in Colombo'' = Inr (''Critical'', 90) \<and>
   analyze_risk warning_engine ''Fuel prices rise'' = Inr (''Warning'', 57)"
proof -
  have half: "\<exists>m j :: nat. m < 2 ^ 24 \<and> j \<le> 149 \<and> (1 / 2 :: real) = real m / 2 ^ j"
    by (intro exI [of _ 1]) simp
  have quarter: "\<exists>m j :: nat. m < 2 ^ 24 \<and> j \<le> 149 \<and> (1 / 4 :: real) = real m / 2 ^ j"
    by (intro exI [of _ 1] exI [of _ 2]) simp
  have f1: "\<lfloor>80 + 1 / 2 * 20 :: real\<rfloor> = 90" by simp
  have f2: "\<lfloor>50 + 1 / 4 * 29 :: real\<rfloor> = 57" by (simp add: floor_eq_iff)
  have a: "analyze_risk demo_engine ''Riots erupt in Colombo'' = Inr (''Critical'', 90)"
    using analyze_risk_bands
      [where self = demo_engine and msg = "''Riots erupt in Colombo''"
         and result = "\<lparr>labels = [''Critical Unrest'', ''Economic Crisis''],
                         scores = [1 / 2, 1 / 4]\<rparr>"
         and L = "''Critical Unrest''" and ls = "[''Economic Crisis'']"
         and c = "1 / 2" and cs = "[1 / 4]"] half
    unfolding f1 by (auto simp: demo_engine_def)
  have b: "analyze_risk warning_engine ''Fuel prices rise'' = Inr (''Warning'', 57)"
    using analyze_risk_bands
      [where self = warning_engine and msg = "''Fuel prices rise''"
         and result = "\<lparr>labels = [''Economic Crisis'', ''Critical Unrest''],
                         scores = [1 / 4, 1 / 8]\<rparr>"
         and L = "''Economic Crisis''" and ls = "[''Critical Unrest'']"
         and c = "1 / 4" and cs = "[1 / 8]"] quarter
    unfolding f2 by (auto simp: warning_engine_def)
  from a b show ?thesis by simp
qed

text \<open>
  The claim as first stated fails: the confidence \<open>1 - 2 ^ -53\<close> is a double, and the
  exact value of \<open>80 + 20 c\<close> stays below 100 and has floor 99. The product is rounded
  to \<open>20 - 2 ^ -48\<close>, the sum \<open>100 - 2 ^ -48\<close> is nearer to 100 than to the double below
  it, and the code returns 100.
\<close>

theorem analyze_risk_rounding_counterexample:
  "double_round edge_confidence = edge_confidence \<and>
   0 \<le> edge_confidence \<and> edge_confidence \<le> 1 \<and>
   analyze_risk edge_engine ''Riots erupt in Colombo'' = Inr (''Critical'', 100) \<and>
   \<lfloor>80 + edge_confidence * 20\<rfloor> = 99"
proof -
  have l0: "\<lfloor>log 2 \<bar>1 - 1 / 2 ^ 53 :: real\<bar>\<rfloor> = - 1"
    using floor_log_eq_powr_iff [of "1 - 1 / 2 ^ 53" 2 "- 1"] by (simp add: powr_minus)
  have d0: "double_round edge_confidence = edge_confidence"
    unfolding edge_confidence_def double_round_def l0
    by (simp add: pow2_def round_half_even_def Let_def)
  have l1: "\<lfloor>log 2 \<bar>(1 - 1 / 2 ^ 53) * 20 :: real\<bar>\<rfloor> = 4"
    using floor_log2_eq [of 4 "(1 - 1 / 2 ^ 53) * 20"] by simp
  have d1: "float_mul edge_confidence 20 = 20 - 1 / 2 ^ 48"
    unfolding edge_confidence_def float_mul_def double_round_def l1
    by (simp add: pow2_def round_half_even_def Let_def)
  have l2: "\<lfloor>log 2 \<bar>80 + (20 - 1 / 2 ^ 48) :: real\<bar>\<rfloor> = 6"
    using floor_log2_eq [of 6 "80 + (20 - 1 / 2 ^ 48)"] by simp
  have d2: "float_add 80 (20 - 1 / 2 ^ 48) = 100"
    unfolding float_add_def double_round_def l2
    by (simp add: pow2_def round_half_even_def Let_def)
  have i: "int_of_float 100 = Inr 100"
    using int_of_float_small [of 100] by simp
  have v: "int_of_float (float_add 80 (float_mul edge_confidence 20)) = Inr 100"
    unfolding d1 d2 i by (rule refl)
  have code: "analyze_risk edge_engine ''Riots erupt in Colombo'' = Inr (''Critical'', 100)"
    by (simp add: analyze_risk_def edge_engine_def v)
  have exact: "\<lfloor>80 + edge_confidence * 20\<rfloor> = 99"
    by (simp add: edge_confidence_def floor_eq_iff)
  have range: "0 \<le> edge_confidence" "edge_confidence \<le> 1"
    by (simp_all add: edge_confidence_def)
  from d0 range code exact show ?thesis by simp
qed

subsection \<open>Sector detection\<close>

lemma detect_sector_loop_first:
  "(\<forall>rule \<in> set pre. \<not> any_keyword_in (snd rule) t) \<Longrightarrow> any_keyword_in kws t \<Longrightarrow>
   detect_sector_loop (pre @ (s, kws) # post) t = s"
  by (induction pre) auto

lemma detect_sector_loop_none:
  "(\<forall>rule \<in> set rules. \<not> any_keyword_in (snd rule) t) \<Longrightarrow>
   detect_sector_loop rules t = ''GENERAL''"
  by (induction rules) auto

text \<open>
  What the loop does: it returns the first sector one of whose keywords occurs, exactly
  as configured, as a contiguous part of the lower-cased text, and GENERAL when no rule
  has such a keyword.
\<close>

lemma detect_sector_first_match:
  "(sector_rules self = pre @ (s, kws) # post \<and>
    (\<forall>rule \<in> set pre. \<forall>w \<in> set (snd rule). \<not> sublist w (lower msg)) \<and>
    (\<exists>w \<in> set kws. sublist w (lower msg))
      \<longrightarrow> detect_sector self msg = s) \<and>
   ((\<forall>rule \<in> set (sector_rules self). \<forall>w \<in> set (snd rule). \<not> sublist w (lower msg))
      \<longrightarrow> detect_sector self msg = ''GENERAL'')"
  unfolding detect_sector_def
  using detect_sector_loop_first [of pre "lower msg" kws s post]
        detect_sector_loop_none [of "sector_rules self" "lower msg"]
  by (simp add: any_keyword_in_iff)

lemma detect_sector_first_match_example:
  "detect_sector
     \<lparr>classifier = (\<lambda>t ls. Inl (ClassifierError ''offline'')),
      sector_rules = [(''INFRASTRUCTURE'', [''power'', ''riot'']), (''SOCIETY'', [''riot''])],
      locations = []\<rparr>
     ''Riots erupt in Colombo'' = ''INFRASTRUCTURE''"
proof -
  have low: "lower ''Riots erupt in Colombo'' = ''riots erupt in colombo''"
    by code_simp
  have hit: "sublist ''riot'' ''riots erupt in colombo''"
    unfolding py_in_iff_sublist [symmetric] by simp
  show ?thesis
    using detect_sector_first_match
      [where self = "\<lparr>classifier = (\<lambda>t ls. Inl (ClassifierError ''offline'')),
      sector_rules = [(''INFRASTRUCTURE'', [''power'', ''riot'']), (''SOCIETY'', [''riot''])],
      locations = []\<rparr>"
        and msg = "''Riots erupt in Colombo''" and pre = "[]" and s = "''INFRASTRUCTURE''"
        and kws = "[''power'', ''riot'']" and post = "[(''SOCIETY'', [''riot''])]"]
      low hit
    by simp
qed

text \<open>
  Claim C4. \<open>detect_sector\<close> is to return the first sector that has a keyword occurring
  in the text without regard to case. The code lower-cases the text and compares it with
  the keyword as configured, so a keyword with an upper-case letter never matches: under
  the rule \<open>INFRASTRUCTURE: [Riot]\<close> the text \<open>Riot in Colombo\<close>, which contains the keyword
  even letter for letter, is classified GENERAL, while the same rule written \<open>[riot]\<close>
  gives INFRASTRUCTURE.
\<close>

theorem detect_sector_uppercase_keyword:
  "sublist ''Riot'' ''Riot in Colombo'' \<and>
   sublist (lower ''Riot'') (lower ''Riot in Colombo'') \<and>
   detect_sector
     \<lparr>classifier = (\<lambda>t ls. Inl (ClassifierError ''offline'')),
      sector_rules = [(''INFRASTRUCTURE'', [''Riot''])], locations = []\<rparr>
     ''Riot in Colombo'' = ''GENERAL'' \<and>
   detect_sector
     \<lparr>classifier = (\<lambda>t ls. Inl (ClassifierError ''offline'')),
      sector_rules = [(''INFRASTRUCTURE'', [''riot''])], locations = []\<rparr>
     ''Riot in Colombo'' = ''INFRASTRUCTURE''"
proof -
  have low: "lower ''Riot in Colombo'' = ''riot in colombo''" "lower ''Riot'' = ''riot''"
    by code_simp+
  show ?thesis
    unfolding py_in_iff_sublist [symmetric] detect_sector_def low
    by simp
qed

subsection \<open>The gazetteer and the store through the pipeline\<close>





lemma extend_row_fields [simp]:
  "link (article.extend a (row.fields n)) = link a"
  "lat (article.extend a (row.fields n)) = lat a"
  "lon (article.extend a (row.fields n)) = lon a"
  "row_id (article.extend a (row.fields n)) = n"
  by (cases a; simp add: article.extend_def row.fields_def)+

lemma save_article_articles:
  "articles (snd (save_article io st a)) = articles st \<or>
   (articles (snd (save_article io st a)) =
      articles st @ [article.extend a (row.fields (next_id st))] \<and>
    (\<forall>r \<in> set (articles st). link r \<noteq> link a))"
  by (auto simp: save_article_def commit_and_close_def insert_or_ignore_def
           split: option.splits if_splits)

lemma process_entry_unfold:
  assumes "entry_title e = Some raw"
    and "analyze_risk (engine self) (preprocess (html_text self) (Some raw)) = Inr (cat, risk)"
    and "get_location (engine self) (preprocess (html_text self) (Some raw)) = Inr (la, lo)"
    and "entry_link e = Some l"
    and "src ''name'' = Some source_name"
    and "a = \<lparr>title = preprocess (html_text self) (Some raw), link = l,
          published = (case entry_published e of None \<Rightarrow> ''Unknown'' | Some p \<Rightarrow> p),
          source = source_name, category = cat, risk_score = Some risk,
          sector = detect_sector (engine self) (preprocess (html_text self) (Some raw)),
          lat = la, lon = lo,
          is_upcoming = detect_future_event (preprocess (html_text self) (Some raw))\<rparr>"
  shows "process_entry self src e st =
        (case save_article (sqlite self st a) st a of
           (Inl err, st') \<Rightarrow> (Inl err, st')
         | (Inr saved, st') \<Rightarrow>
             (Inr (), if saved then st'\<lparr>console := console st' @
                 [Saved (detect_sector (engine self) (preprocess (html_text self) (Some raw)))
                    risk (take 40 (preprocess (html_text self) (Some raw)))]\<rparr>
               else st'))"
  unfolding assms(6) using assms(1-5) by (simp add: process_entry_def Let_def)

lemma process_entry_articles:
  "articles (snd (process_entry self src e st)) = articles st \<or>
   (\<exists>a. articles (snd (process_entry self src e st)) =
           articles st @ [article.extend a (row.fields (next_id st))] \<and>
        (\<forall>r \<in> set (articles st). link r \<noteq> link a) \<and>
        (\<exists>t. get_location (engine self) t = Inr (lat a, lon a)) \<and>
        entry_link e = Some (link a))"
proof (cases "entry_title e")
  case None
  then show ?thesis by (simp add: process_entry_def)
next
  case (Some raw)
  define clean where "clean = preprocess (html_text self) (Some raw)"
  show ?thesis
  proof (cases "analyze_risk (engine self) clean")
    case (Inl err)
    with Some show ?thesis by (simp add: process_entry_def clean_def)
  next
    case (Inr cr)
    obtain cat risk where cr: "cr = (cat, risk)" by (cases cr)
    show ?thesis
    proof (cases "get_location (engine self) clean")
      case bad: (Inl err)
      with Some Inr cr show ?thesis by (simp add: process_entry_def clean_def)
    next
      case loc0: (Inr pr)
      obtain la lo where pr: "pr = (la, lo)" by (cases pr)
      note loc = loc0 [unfolded pr clean_def]
      show ?thesis
      proof (cases "entry_link e")
        case None
        with Some Inr cr loc show ?thesis by (simp add: process_entry_def clean_def)
      next
        case link: (Some l)
        show ?thesis
        proof (cases "src ''name''")
          case None
          with Some Inr cr loc link show ?thesis by (simp add: process_entry_def clean_def)
        next
          case name: (Some source_name)
          define a where "a = \<lparr>title = preprocess (html_text self) (Some raw), link = l,
              published = (case entry_published e of None \<Rightarrow> ''Unknown'' | Some p \<Rightarrow> p),
              source = source_name, category = cat, risk_score = Some risk,
              sector = detect_sector (engine self) (preprocess (html_text self) (Some raw)),
              lat = la, lon = lo,
              is_upcoming = detect_future_event (preprocess (html_text self) (Some raw))\<rparr>"
          note pe = process_entry_unfold
            [where src = src and st = st, OF \<open>entry_title e = Some raw\<close> Inr [unfolded cr clean_def] loc link name a_def]
          have art: "articles (snd (process_entry self src e st)) =
            articles (snd (save_article (sqlite self st a) st a))"
            unfolding pe
            by (cases "save_article (sqlite self st a) st a") (auto split: sum.splits)
          have pa: "\<exists>t. get_location (engine self) t = Inr (lat a, lon a)" "link a = l"
            using loc by (auto simp: a_def)
          show ?thesis
            using save_article_articles [of "sqlite self st a" st a] pa link
            unfolding art by auto
        qed
      qed
    qed
  qed
qed

lemma process_entry_ext:
  "\<exists>new. articles (snd (process_entry self src e st)) = articles st @ new \<and>
     (\<forall>r \<in> set new. \<exists>t. get_location (engine self) t = Inr (lat r, lon r)) \<and>
     (distinct (map link (articles st)) \<longrightarrow> distinct (map link (articles st @ new)))"
  using process_entry_articles [of self src e st]
proof (elim disjE exE conjE)
  assume "articles (snd (process_entry self src e st)) = articles st"
  then show ?thesis by (intro exI [of _ "[]"]) simp
next
  fix a t
  assume h: "articles (snd (process_entry self src e st)) =
      articles st @ [article.extend a (row.fields (next_id st))]"
    "\<forall>r \<in> set (articles st). link r \<noteq> link a"
    "get_location (engine self) t = Inr (lat a, lon a)"
  have "link a \<notin> link ` set (articles st)"
    using h(2) by force
  moreover have "\<exists>t. get_location (engine self) t =
      Inr (lat (article.extend a (row.fields (next_id st))),
           lon (article.extend a (row.fields (next_id st))))"
    using h(3) by auto
  ultimately show ?thesis
    using h(1)
    by (intro exI [of _ "[article.extend a (row.fields (next_id st))]"]) simp
qed

lemma process_entries_articles:
  "\<exists>new. articles (snd (process_entries self src es st)) = articles st @ new \<and>
     (\<forall>r \<in> set new. \<exists>t. get_location (engine self) t = Inr (lat r, lon r)) \<and>
     (distinct (map link (articles st)) \<longrightarrow> distinct (map link (articles st @ new)))"
proof (induction es arbitrary: st)
  case Nil
  then show ?case by simp
next
  case (Cons e es)
  obtain res st1 where step: "process_entry self src e st = (res, st1)"
    by (cases "process_entry self src e st")
  from process_entry_ext [of self src e st] step
  obtain n1 where n1: "articles st1 = articles st @ n1"
      "\<forall>r \<in> set n1. \<exists>t. get_location (engine self) t = Inr (lat r, lon r)"
      "distinct (map link (articles st)) \<longrightarrow> distinct (map link (articles st @ n1))"
    by auto
  show ?case
  proof (cases res)
    case (Inl err)
    with step n1 show ?thesis by auto
  next
    case (Inr u)
    from Cons.IH [of st1] obtain n2 where n2:
      "articles (snd (process_entries self src es st1)) = articles st1 @ n2"
      "\<forall>r \<in> set n2. \<exists>t. get_location (engine self) t = Inr (lat r, lon r)"
      "distinct (map link (articles st1)) \<longrightarrow> distinct (map link (articles st1 @ n2))"
      by blast
    have "articles (snd (process_entries self src (e # es) st)) = articles st @ (n1 @ n2)"
      using step Inr n1(1) n2(1) by simp
    moreover have "\<forall>r \<in> set (n1 @ n2). \<exists>t. get_location (engine self) t = Inr (lat r, lon r)"
      using n1(2) n2(2) by auto
    moreover have "distinct (map link (articles st)) \<longrightarrow>
        distinct (map link (articles st @ (n1 @ n2)))"
      using n1(1,3) n2(3) by simp
    ultimately show ?thesis by blast
  qed
qed

lemma process_feed_articles:
  "\<exists>new. articles (snd (process_feed self src st)) = articles st @ new \<and>
     (\<forall>r \<in> set new. \<exists>t. get_location (engine self) t = Inr (lat r, lon r)) \<and>
     (distinct (map link (articles st)) \<longrightarrow> distinct (map link (articles st @ new)))"
proof -
  have body: "articles (snd (process_feed self src st)) =
      articles (snd (process_feed_body self src st))"
    by (cases "process_feed_body self src st")
       (auto simp: process_feed_def split: sum.splits option.splits)
  have "snd (process_feed_body self src st) = st \<or>
      (\<exists>es. snd (process_feed_body self src st) = snd (process_entries self src es st))"
    by (auto simp: process_feed_body_def split: sum.splits option.splits)
  then show ?thesis
  proof
    assume "snd (process_feed_body self src st) = st"
    with body have "articles (snd (process_feed self src st)) = articles st @ []" by simp
    then show ?thesis by (intro exI [of _ "[]"]) simp
  next
    assume "\<exists>es. snd (process_feed_body self src st) = snd (process_entries self src es st)"
    then obtain es where
      "snd (process_feed_body self src st) = snd (process_entries self src es st)" ..
    with body process_entries_articles [of self src es st] show ?thesis by simp
  qed
qed

lemma run_sources_articles:
  "\<exists>new. articles (snd (run_sources self feed_list st)) = articles st @ new \<and>
     (\<forall>r \<in> set new. \<exists>t. get_location (engine self) t = Inr (lat r, lon r)) \<and>
     (distinct (map link (articles st)) \<longrightarrow> distinct (map link (articles st @ new)))"
proof (induction feed_list arbitrary: st)
  case Nil
  show ?case by (intro exI [of _ "[]"]) simp
next
  case (Cons src feed_list)
  obtain res st1 where step: "process_feed self src st = (res, st1)"
    by (cases "process_feed self src st")
  from process_feed_articles [of self src st] step obtain n1 where n1:
      "articles st1 = articles st @ n1"
      "\<forall>r \<in> set n1. \<exists>t. get_location (engine self) t = Inr (lat r, lon r)"
      "distinct (map link (articles st)) \<longrightarrow> distinct (map link (articles st @ n1))"
    by auto
  show ?case
  proof (cases res)
    case (Inl err)
    with step n1 show ?thesis by auto
  next
    case (Inr u)
    from Cons.IH [of st1] obtain n2 where n2:
        "articles (snd (run_sources self feed_list st1)) = articles st1 @ n2"
        "\<forall>r \<in> set n2. \<exists>t. get_location (engine self) t = Inr (lat r, lon r)"
        "distinct (map link (articles st1)) \<longrightarrow> distinct (map link (articles st1 @ n2))"
      by blast
    have "articles (snd (run_sources self (src # feed_list) st)) = articles st @ (n1 @ n2)"
      using step Inr n1(1) n2(1) by simp
    moreover have "\<forall>r \<in> set (n1 @ n2). \<exists>t. get_location (engine self) t = Inr (lat r, lon r)"
      using n1(2) n2(2) by auto
    moreover have "distinct (map link (articles st)) \<longrightarrow>
        distinct (map link (articles st @ (n1 @ n2)))"
      using n1(1,3) n2(3) by simp
    ultimately show ?thesis by blast
  qed
qed

subsection \<open>Idempotent insert\<close>

lemma save_article_healthy:
  "save_article healthy st a =
     (if \<exists>r \<in> set (articles st). link r = link a
      then (Inr False, st\<lparr>next_id := next_id st + 1\<rparr>)
      else (Inr True,
            st\<lparr>articles := articles st @ [article.extend a (row.fields (next_id st))],
               next_id := next_id st + 1\<rparr>))"
  by (simp add: save_article_def healthy_def commit_and_close_def insert_or_ignore_def)

lemma save_article_distinct:
  "distinct (map link (articles st)) \<Longrightarrow>
   distinct (map link (articles (snd (save_article io st a))))"
  using save_article_articles [of io st a] by force

text \<open>
  Claim C2. While the SQLite library works, saving an article whose link is stored
  already writes no row and returns \<open>False\<close> (the table and the console stay as they
  are; only the key counter moves on); saving one whose link is not stored appends
  exactly one row, the article under the next key, and returns \<open>True\<close>.
  Whatever the library does, the stored links stay pairwise distinct through a call of
  \<open>save_article\<close> and through a whole cycle of the pipeline.
\<close>

theorem save_article_idempotent:
  "((\<exists>r \<in> set (articles st). link r = link a) \<longrightarrow>
      save_article healthy st a = (Inr False, st\<lparr>next_id := next_id st + 1\<rparr>)) \<and>
   ((\<forall>r \<in> set (articles st). link r \<noteq> link a) \<longrightarrow>
      save_article healthy st a =
        (Inr True,
         st\<lparr>articles := articles st @ [article.extend a (row.fields (next_id st))],
            next_id := next_id st + 1\<rparr>)) \<and>
   (distinct (map link (articles st)) \<longrightarrow>
      distinct (map link (articles (snd (save_article io st a))))) \<and>
   (distinct (map link (articles st)) \<longrightarrow>
      distinct (map link (articles (snd (run_sources self feed_list st)))))"
proof (intro conjI impI)
  assume "\<exists>r \<in> set (articles st). link r = link a"
  then show "save_article healthy st a = (Inr False, st\<lparr>next_id := next_id st + 1\<rparr>)"
    by (simp add: save_article_healthy)
next
  assume "\<forall>r \<in> set (articles st). link r \<noteq> link a"
  then show "save_article healthy st a =
        (Inr True,
         st\<lparr>articles := articles st @ [article.extend a (row.fields (next_id st))],
            next_id := next_id st + 1\<rparr>)"
    by (simp add: save_article_healthy)
next
  assume "distinct (map link (articles st))"
  then show "distinct (map link (articles (snd (save_article io st a))))"
    by (rule save_article_distinct)
next
  assume "distinct (map link (articles st))"
  with run_sources_articles [of self feed_list st]
  show "distinct (map link (articles (snd (run_sources self feed_list st))))"
    by auto
qed

theorem save_article_idempotent_witness:
  "save_article healthy empty_store demo_article =
     (Inr True, \<lparr>articles = [article.extend demo_article (row.fields 1)], next_id = 2,
                 console = []\<rparr>) \<and>
   save_article healthy
     \<lparr>articles = [article.extend demo_article (row.fields 1)], next_id = 2, console = []\<rparr>
     demo_article =
     (Inr False,
      \<lparr>articles = [article.extend demo_article (row.fields 1)], next_id = 3, console = []\<rparr>)"
  using save_article_idempotent [of empty_store demo_article healthy demo_pipeline "[]"]
    save_article_idempotent
      [of "\<lparr>articles = [article.extend demo_article (row.fields 1)], next_id = 2,
            console = []\<rparr>" demo_article healthy demo_pipeline "[]"]
  by (simp add: empty_store_def)


subsection \<open>Storage errors\<close>

lemma demo_clean:
  "preprocess (drop_tags False)
     (Some ''<b>Riots erupt</b> in Colombo, scheduled curfew tomorrow'') =
   ''Riots erupt in Colombo, scheduled curfew tomorrow''"
  by code_simp

lemma demo_location:
  "get_location demo_engine ''Riots erupt in Colombo, scheduled curfew tomorrow'' =
     Inr (Some (69 / 10), Some (798 / 10))"
  by (simp add: get_location_def demo_engine_def coords_pair_def)


lemma process_feed_named:
  "src ''name'' = Some n \<Longrightarrow> fst (process_feed self src st) = Inr ()"
  by (cases "process_feed_body self src st")
     (auto simp: process_feed_def split: sum.splits)




subsection \<open>Locations\<close>




subsection \<open>Isolation of failing sources\<close>

lemma process_entries_keeps:
  "set (articles st) \<subseteq> set (articles (snd (process_entries self src es st)))"
  using process_entries_articles [of self src es st] by auto

lemma run_sources_keeps:
  "set (articles st) \<subseteq> set (articles (snd (run_sources self feed_list st)))"
  using run_sources_articles [of self feed_list st] by auto

lemma process_entry_good:
  assumes t: "entry_title e = Some raw" and l: "entry_link e = Some l"
    and r: "analyze_risk (engine self) (preprocess (html_text self) (Some raw)) = Inr (cat, risk)"
    and g: "get_location (engine self) (preprocess (html_text self) (Some raw)) = Inr (la, lo)"
    and nm: "src ''name'' = Some n"
    and s: "\<And>data. link data = l \<Longrightarrow> sqlite self st data = healthy"
  shows "fst (process_entry self src e st) = Inr () \<and>
    (\<exists>r \<in> set (articles (snd (process_entry self src e st))). link r = l)"
proof -
  define a where "a = \<lparr>title = preprocess (html_text self) (Some raw), link = l,
          published = (case entry_published e of None \<Rightarrow> ''Unknown'' | Some p \<Rightarrow> p),
          source = n, category = cat, risk_score = Some risk,
          sector = detect_sector (engine self) (preprocess (html_text self) (Some raw)),
          lat = la, lon = lo,
          is_upcoming = detect_future_event (preprocess (html_text self) (Some raw))\<rparr>"
  have la: "link a = l" by (simp add: a_def)
  have io: "sqlite self st a = healthy" using s [OF la] .
  show ?thesis
    unfolding process_entry_unfold [where src = src and st = st, OF t r g l nm a_def] io
      save_article_healthy
    using la by auto
qed

lemma process_entries_good:
  assumes "src ''name'' = Some n"
    and "\<forall>e \<in> set es. \<exists>raw l cat risk la lo.
      entry_title e = Some raw \<and> entry_link e = Some l \<and>
      analyze_risk (engine self) (preprocess (html_text self) (Some raw)) = Inr (cat, risk) \<and>
      get_location (engine self) (preprocess (html_text self) (Some raw)) = Inr (la, lo) \<and>
      (\<forall>st' data. link data = l \<longrightarrow> sqlite self st' data = healthy)"
  shows "fst (process_entries self src es st) = Inr () \<and>
    (\<forall>e \<in> set es. \<exists>r \<in> set (articles (snd (process_entries self src es st))).
        entry_link e = Some (link r))"
  using assms(2)
proof (induction es arbitrary: st)
  case Nil
  then show ?case by simp
next
  case (Cons e es)
  from Cons.prems obtain raw l cat risk la lo where g:
      "entry_title e = Some raw" "entry_link e = Some l"
      "analyze_risk (engine self) (preprocess (html_text self) (Some raw)) = Inr (cat, risk)"
      "get_location (engine self) (preprocess (html_text self) (Some raw)) = Inr (la, lo)"
      "\<And>st' data. link data = l \<Longrightarrow> sqlite self st' data = healthy"
    by auto
  obtain res st1 where step: "process_entry self src e st = (res, st1)"
    by (cases "process_entry self src e st")
  from process_entry_good [where src = src and st = st, OF g(1-4) assms(1)] g(5) step
  have ok: "res = Inr ()" and here: "\<exists>r \<in> set (articles st1). link r = l"
    by auto
  have rest: "fst (process_entries self src es st1) = Inr () \<and>
    (\<forall>e \<in> set es. \<exists>r \<in> set (articles (snd (process_entries self src es st1))).
        entry_link e = Some (link r))"
    using Cons.IH [of st1] Cons.prems by simp
  have unfold: "process_entries self src (e # es) st = process_entries self src es st1"
    using step ok by simp
  from here process_entries_keeps [of st1 self src es]
  have "\<exists>r \<in> set (articles (snd (process_entries self src es st1))). entry_link e = Some (link r)"
    using g(2) by auto
  with rest show ?case unfolding unfold by simp
qed

lemma process_feed_good:
  assumes "src ''url'' = Some u" and "src ''name'' = Some n"
    and "feedparser_parse self u = Inr entries"
    and "\<forall>e \<in> set (take 5 entries). \<exists>raw l cat risk la lo.
      entry_title e = Some raw \<and> entry_link e = Some l \<and>
      analyze_risk (engine self) (preprocess (html_text self) (Some raw)) = Inr (cat, risk) \<and>
      get_location (engine self) (preprocess (html_text self) (Some raw)) = Inr (la, lo) \<and>
      (\<forall>st' data. link data = l \<longrightarrow> sqlite self st' data = healthy)"
  shows "\<forall>e \<in> set (take 5 entries). \<exists>r \<in> set (articles (snd (process_feed self src st))).
        entry_link e = Some (link r)"
proof (cases "entries = []")
  case True
  then show ?thesis by simp
next
  case False
  have body: "process_feed_body self src st = process_entries self src (take 5 entries) st"
    using assms(1,3) False by (simp add: process_feed_body_def)
  from process_entries_good [where src = src, OF assms(2,4), of st]
  have ok: "fst (process_entries self src (take 5 entries) st) = Inr ()"
    and all: "\<forall>e \<in> set (take 5 entries).
      \<exists>r \<in> set (articles (snd (process_entries self src (take 5 entries) st))).
        entry_link e = Some (link r)"
    by simp_all
  have "snd (process_feed self src st) = snd (process_entries self src (take 5 entries) st)"
    using ok unfolding process_feed_def body
    by (cases "process_entries self src (take 5 entries) st") auto
  with all show ?thesis by simp
qed

lemma run_sources_named:
  "\<forall>src \<in> set feed_list. src ''name'' \<noteq> None \<Longrightarrow>
   fst (run_sources self feed_list st) = Inr ()"
proof (induction feed_list arbitrary: st)
  case Nil
  show ?case by simp
next
  case (Cons src feed_list)
  then obtain n where "src ''name'' = Some n" by auto
  from process_feed_named [where src = src and self = self and st = st, OF this]
  have "run_sources self (src # feed_list) st =
      run_sources self feed_list (snd (process_feed self src st))"
    by (cases "process_feed self src st") auto
  with Cons show ?case by simp
qed

lemma run_sources_append:
  "\<forall>src \<in> set pre. src ''name'' \<noteq> None \<Longrightarrow>
   run_sources self (pre @ post) st = run_sources self post (snd (run_sources self pre st))"
proof (induction pre arbitrary: st)
  case Nil
  show ?case by simp
next
  case (Cons src pre)
  then obtain n where "src ''name'' = Some n" by auto
  from process_feed_named [where src = src and self = self and st = st, OF this]
  have "\<And>rest. run_sources self (src # rest) st =
      run_sources self rest (snd (process_feed self src st))"
    by (cases "process_feed self src st") auto
  with Cons show ?case by simp
qed

text \<open>
  When every configured source has the key \<open>name\<close>, the cycle ends without an exception
  whatever the sources do, and every one of the first five entries of a source that is
  fetched, classified and located without error, and whose links the SQLite library
  accepts, is in the store when the cycle ends.
\<close>

lemma run_sources_isolates_named:
  assumes "\<forall>src \<in> set feed_list. src ''name'' \<noteq> None"
    and "source_cfg \<in> set feed_list" and "source_cfg ''url'' = Some u"
    and "feedparser_parse self u = Inr entries"
    and "\<forall>e \<in> set (take 5 entries). \<exists>raw l cat risk la lo.
       entry_title e = Some raw \<and> entry_link e = Some l \<and>
       analyze_risk (engine self) (preprocess (html_text self) (Some raw)) = Inr (cat, risk) \<and>
       get_location (engine self) (preprocess (html_text self) (Some raw)) = Inr (la, lo) \<and>
       (\<forall>st' data. link data = l \<longrightarrow> sqlite self st' data = healthy)"
  shows "fst (run_sources self feed_list st) = Inr () \<and>
    (\<forall>e \<in> set (take 5 entries).
       \<exists>r \<in> set (articles (snd (run_sources self feed_list st))). entry_link e = Some (link r))"
proof -
  from assms(2) obtain before after where split: "feed_list = before @ source_cfg # after"
    by (auto simp: in_set_conv_decomp)
  from assms(1,2) obtain n where nm: "source_cfg ''name'' = Some n" by auto
  have named: "\<forall>src \<in> set before. src ''name'' \<noteq> None"
    using assms(1) split by simp
  define st1 where "st1 = snd (run_sources self before st)"
  have one: "run_sources self (source_cfg # after) st1 =
      run_sources self after (snd (process_feed self source_cfg st1))"
    using process_feed_named [where src = source_cfg and self = self and st = st1, OF nm]
    by (cases "process_feed self source_cfg st1") auto
  have run: "run_sources self feed_list st =
      run_sources self after (snd (process_feed self source_cfg st1))"
    unfolding split run_sources_append [OF named] st1_def [symmetric] one ..
  from process_feed_good [where src = source_cfg and st = st1, OF assms(3) nm assms(4,5)]
    run_sources_keeps [of "snd (process_feed self source_cfg st1)" self after]
  have "\<forall>e \<in> set (take 5 entries).
      \<exists>r \<in> set (articles (snd (run_sources self feed_list st))). entry_link e = Some (link r)"
    unfolding run by blast
  with run_sources_named [OF assms(1)] show ?thesis by simp
qed

text \<open>
  Claim C6. An exception raised while one source is processed is to be caught, and the
  cycle is to go on with the remaining sources. The handler of \<open>process_feed\<close> builds its
  message from \<open>source_config['name']\<close>; for a configured source without that key the
  handler itself raises \<open>KeyError\<close>, nothing in \<open>run\<close> catches it, and the sources that
  follow are never processed. Here the first source has no name: whether its feed
  cannot be fetched, or is served and the \<open>try\<close> block itself fails on
  \<open>source_config['name']\<close>, the cycle ends with the \<open>KeyError\<close> and the store is still
  empty, although the second source is in order. With the name in place the same cycle
  ends normally and the article of the second source is stored.
\<close>

theorem run_sources_unnamed_source_aborts:
  "run_sources demo_pipeline
     [[''url'' \<mapsto> ''http://b''], [''name'' \<mapsto> ''C'', ''url'' \<mapsto> ''http://c'']] empty_store =
     (Inl (KeyError ''name''), empty_store) \<and>
   run_sources demo_pipeline
     [[''url'' \<mapsto> ''http://a''], [''name'' \<mapsto> ''C'', ''url'' \<mapsto> ''http://c'']] empty_store =
     (Inl (KeyError ''name''), empty_store) \<and>
   fst (run_sources demo_pipeline
     [[''name'' \<mapsto> ''B'', ''url'' \<mapsto> ''http://b''], [''name'' \<mapsto> ''C'', ''url'' \<mapsto> ''http://c'']]
     empty_store) = Inr () \<and>
   (\<exists>r \<in> set (articles (snd (run_sources demo_pipeline
     [[''name'' \<mapsto> ''B'', ''url'' \<mapsto> ''http://b''], [''name'' \<mapsto> ''C'', ''url'' \<mapsto> ''http://c'']]
     empty_store))). link r = ''L3'')"
proof -
  have bad: "run_sources demo_pipeline
     [[''url'' \<mapsto> ''http://b''], [''name'' \<mapsto> ''C'', ''url'' \<mapsto> ''http://c'']] empty_store =
     (Inl (KeyError ''name''), empty_store)"
    by (simp add: process_feed_def process_feed_body_def demo_pipeline_def)
  have served: "run_sources demo_pipeline
     [[''url'' \<mapsto> ''http://a''], [''name'' \<mapsto> ''C'', ''url'' \<mapsto> ''http://c'']] empty_store =
     (Inl (KeyError ''name''), empty_store)"
    by (simp add: process_feed_def process_feed_body_def process_entry_def demo_pipeline_def
        demo_entry_def demo_clean demo_analyze demo_location)
  have eng: "engine demo_pipeline = demo_engine" "html_text demo_pipeline = drop_tags False"
      "\<And>st data. sqlite demo_pipeline st data = healthy"
      "feedparser_parse demo_pipeline ''http://c'' = Inr [demo_entry ''L3'']"
    by (simp_all add: demo_pipeline_def)
  have good: "fst (run_sources demo_pipeline
     [[''name'' \<mapsto> ''B'', ''url'' \<mapsto> ''http://b''], [''name'' \<mapsto> ''C'', ''url'' \<mapsto> ''http://c'']]
     empty_store) = Inr () \<and>
    (\<forall>e \<in> set (take 5 [demo_entry ''L3'']).
       \<exists>r \<in> set (articles (snd (run_sources demo_pipeline
         [[''name'' \<mapsto> ''B'', ''url'' \<mapsto> ''http://b''], [''name'' \<mapsto> ''C'', ''url'' \<mapsto> ''http://c'']]
         empty_store))). entry_link e = Some (link r))"
    by (rule run_sources_isolates_named
          [where source_cfg = "[''name'' \<mapsto> ''C'', ''url'' \<mapsto> ''http://c'']"
             and u = "''http://c''"])
       (simp_all add: eng demo_entry_def demo_clean demo_analyze demo_location)
  from bad served good show ?thesis by (auto simp: demo_entry_def)
qed

subsection \<open>National indicators\<close>

lemma py_int_stability:
  assumes "0 \<le> m" and "m \<le> 100"
  shows "py_int (100 - m) = 100 - \<lceil>m\<rceil>"
proof -
  have "\<lfloor>100 - m\<rfloor> = 100 - \<lceil>m\<rceil>"
    unfolding ceiling_def using floor_add_int [of "- m" 100] by (simp add: algebra_simps)
  with assms show ?thesis by (simp add: py_int_def)
qed

lemma sum_list_bounds:
  "(\<forall>v \<in> set vs. 0 \<le> v \<and> v \<le> (100::int)) \<Longrightarrow>
   0 \<le> sum_list vs \<and> sum_list vs \<le> 100 * int (length vs)"
  by (induction vs) auto

lemma series_mean_all_present:
  assumes "xs \<noteq> []" and "\<forall>x \<in> set xs. x \<noteq> None"
  shows "series_mean xs =
    Some (real_of_int (sum_list (map the xs)) / real (length xs))"
proof -
  have "filter (\<lambda>x. x \<noteq> None) xs = xs"
    using assms(2) by (simp add: filter_id_conv)
  with assms(1) show ?thesis by (simp add: series_mean_def)
qed

lemma indicators_nonempty:
  assumes "get_data frame s \<noteq> []"
  shows "fst (get_national_indicators today frame s) =
      py_int (100 - fillna0 (series_mean (map risk_score (take 50 (get_data frame s)))))"
    and "fst (snd (get_national_indicators today frame s)) =
      length (filter (\<lambda>r. \<exists>v. risk_score r = Some v \<and> 80 < v) (get_data frame s))"
proof -
  show "fst (get_national_indicators today frame s) =
      py_int (100 - fillna0 (series_mean (map risk_score (take 50 (get_data frame s)))))"
    using assms
    by (simp add: get_national_indicators_def Let_def fillna0_def split: option.splits)
  have "filter (\<lambda>r. case risk_score r of Some v \<Rightarrow> v > 80 | None \<Rightarrow> False) df =
      filter (\<lambda>r. \<exists>v. risk_score r = Some v \<and> 80 < v) df" for df :: "frame_row list"
    by (rule filter_cong) (auto split: option.splits)
  then show "fst (snd (get_national_indicators today frame s)) =
      length (filter (\<lambda>r. \<exists>v. risk_score r = Some v \<and> 80 < v) (get_data frame s))"
    using assms by (simp add: get_national_indicators_def Let_def)
qed

lemma get_data_matching:
  "get_data frame s =
     (if s = None \<or> s = Some [] \<or> s = Some ''All'' then frame
      else filter (\<lambda>r. Some (sector r) = s) frame)"
  by (cases s) (auto simp: get_data_def intro: filter_cong)

text \<open>
  Claim C3, amended. The matching articles are the whole snapshot when the filter is
  absent, empty or \<open>All\<close>, and otherwise the rows of that sector. When no article
  matches, \<open>get_national_indicators\<close> returns \<open>(0, 0, 0)\<close>. Otherwise the stability is
  \<open>int (100 - m)\<close>, truncated toward zero, where \<open>m\<close> is the mean of the scores present
  among the 50 most recent matching articles (0 when none of them has a score), and the
  critical count is the number of matching articles with a score above 80. When those 50
  all carry a score in 0..100, the stability is 100 minus the mean rounded up.
\<close>

theorem national_indicators_values:
  assumes "matching = (if s = None \<or> s = Some [] \<or> s = Some ''All'' then frame
                       else filter (\<lambda>r. Some (sector r) = s) frame)"
    and "present = map the (filter (\<lambda>x. x \<noteq> None) (map risk_score (take 50 matching)))"
  shows "(matching = [] \<longrightarrow> get_national_indicators today frame s = (0, 0, 0)) \<and>
   (matching \<noteq> [] \<longrightarrow>
      fst (get_national_indicators today frame s) =
        (if present = [] then 100
         else py_int (100 - real_of_int (sum_list present) / real (length present))) \<and>
      fst (snd (get_national_indicators today frame s)) =
        length (filter (\<lambda>r. \<exists>v. risk_score r = Some v \<and> 80 < v) matching)) \<and>
   (matching \<noteq> [] \<and>
    (\<forall>r \<in> set (take 50 matching). \<exists>v. risk_score r = Some v \<and> 0 \<le> v \<and> v \<le> 100)
      \<longrightarrow> fst (get_national_indicators today frame s) =
        100 - \<lceil>real_of_int (sum_list (map (the \<circ> risk_score) (take 50 matching))) /
               real (length (take 50 matching))\<rceil>)"
proof (intro conjI impI)
  have m: "get_data frame s = matching"
    by (simp only: get_data_matching assms(1))
  {
    assume "matching = []"
    then show "get_national_indicators today frame s = (0, 0, 0)"
      by (simp add: get_national_indicators_def m)
  }
  {
    assume ne: "matching \<noteq> []"
    have "py_int 100 = 100" by (simp add: py_int_def)
    then show "fst (get_national_indicators today frame s) =
        (if present = [] then 100
         else py_int (100 - real_of_int (sum_list present) / real (length present)))"
      using ne indicators_nonempty(1) [of frame s today]
      by (simp add: m assms(2) series_mean_def fillna0_def Let_def)
    show "fst (snd (get_national_indicators today frame s)) =
        length (filter (\<lambda>r. \<exists>v. risk_score r = Some v \<and> 80 < v) matching)"
      using ne indicators_nonempty(2) [of frame s today] by (simp add: m)
  }
  {
    assume h: "matching \<noteq> [] \<and>
      (\<forall>r \<in> set (take 50 matching). \<exists>v. risk_score r = Some v \<and> 0 \<le> v \<and> v \<le> 100)"
    define w where "w = take 50 matching"
    define vs where "vs = map (the \<circ> risk_score) w"
    from h have ne: "w \<noteq> []"
      and all: "\<forall>r \<in> set w. \<exists>v. risk_score r = Some v \<and> 0 \<le> v \<and> v \<le> 100"
      by (simp_all add: w_def)
    have mean: "series_mean (map risk_score w) =
        Some (real_of_int (sum_list vs) / real (length w))"
      using series_mean_all_present [of "map risk_score w"] ne all
      by (auto simp: vs_def comp_def)
    have "\<forall>v \<in> set vs. 0 \<le> v \<and> v \<le> 100"
      using all by (auto simp: vs_def)
    from sum_list_bounds [OF this]
    have b: "0 \<le> sum_list vs" "sum_list vs \<le> 100 * int (length w)"
      by (simp_all add: vs_def)
    have len: "0 < real (length w)" using ne by simp
    have lo: "0 \<le> real_of_int (sum_list vs) / real (length w)"
      using b(1) by simp
    have "real_of_int (sum_list vs) \<le> 100 * real (length w)"
      using b(2) by (metis of_int_le_iff of_int_mult of_int_numeral of_int_of_nat_eq)
    then have hi: "real_of_int (sum_list vs) / real (length w) \<le> 100"
      using len by (simp add: divide_le_eq)
    show "fst (get_national_indicators today frame s) =
        100 - \<lceil>real_of_int (sum_list (map (the \<circ> risk_score) (take 50 matching))) /
               real (length (take 50 matching))\<rceil>"
      using indicators_nonempty(1) [of frame s today] h mean py_int_stability [OF lo hi]
      by (simp add: m w_def vs_def fillna0_def)
  }
qed

theorem national_indicators_values_witness:
  "get_national_indicators 0 mixed_frame (Some ''FINANCE'') = (52, 1, 3) \<and>
   get_national_indicators 0 mixed_frame (Some ''LABOR'') = (1, 1, 1) \<and>
   get_national_indicators 0 mixed_frame (Some ''All'') = (35, 2, 4) \<and>
   get_national_indicators 0 mixed_frame (Some ''EVENTS'') = (0, 0, 0)"
proof -
  have fin: "fst (get_national_indicators 0 mixed_frame (Some ''FINANCE'')) = 52 \<and>
      fst (snd (get_national_indicators 0 mixed_frame (Some ''FINANCE''))) = 1"
    using national_indicators_values
      [where frame = mixed_frame and s = "Some ''FINANCE''" and today = 0
         and matching = "[demo_row (Some 85) None, demo_row None None, demo_row (Some 10) None]"
         and present = "[85, 10]"]
    by (simp add: mixed_frame_def demo_row_def py_int_def)
  have lab: "fst (get_national_indicators 0 mixed_frame (Some ''LABOR'')) = 1 \<and>
      fst (snd (get_national_indicators 0 mixed_frame (Some ''LABOR''))) = 1"
    using national_indicators_values
      [where frame = mixed_frame and s = "Some ''LABOR''" and today = 0
         and matching = "[(demo_row (Some 99) None)\<lparr>sector := ''LABOR''\<rparr>]"
         and present = "[99]"]
    by (simp add: mixed_frame_def demo_row_def py_int_def)
  have all: "fst (get_national_indicators 0 mixed_frame (Some ''All'')) = 35 \<and>
      fst (snd (get_national_indicators 0 mixed_frame (Some ''All''))) = 2"
    using national_indicators_values
      [where frame = mixed_frame and s = "Some ''All''" and today = 0
         and matching = mixed_frame and present = "[85, 99, 10]"]
    by (simp add: mixed_frame_def demo_row_def py_int_def)
  have none: "get_national_indicators 0 mixed_frame (Some ''EVENTS'') = (0, 0, 0)"
    using national_indicators_values
      [where frame = mixed_frame and s = "Some ''EVENTS''" and today = 0
         and matching = "[]" and present = "[]"]
    by (simp add: mixed_frame_def demo_row_def)
  have vol: "snd (snd (get_national_indicators 0 mixed_frame (Some ''FINANCE''))) = 3"
      "snd (snd (get_national_indicators 0 mixed_frame (Some ''LABOR''))) = 1"
      "snd (snd (get_national_indicators 0 mixed_frame (Some ''All''))) = 4"
    by code_simp+
  from fin lab all none vol show ?thesis
    by (metis prod.collapse)
qed

text \<open>
  The claim as first stated fails twice: for the scores 10, 11, 10 the mean rounds to 10
  but the stability is 89, and for an empty window, be the snapshot empty or the filter
  without a match, the stability is 0, not 100.
\<close>

theorem national_indicators_counterexample:
  "fst (get_national_indicators 0
     [demo_row (Some 10) None, demo_row (Some 11) None, demo_row (Some 10) None] None) = 89 \<and>
   series_mean (map risk_score (take 50
     [demo_row (Some 10) None, demo_row (Some 11) None, demo_row (Some 10) None])) =
     Some (31 / 3) \<and>
   100 - round (31 / 3 :: real) = 90 \<and>
   get_national_indicators 0 [] None = (0, 0, 0) \<and>
   get_national_indicators 0 [demo_row (Some 10) None] (Some ''LABOR'') = (0, 0, 0)"
proof -
  have "series_mean (map risk_score (take 50
     [demo_row (Some 10) None, demo_row (Some 11) None, demo_row (Some 10) None])) = Some (31 / 3)"
    by (simp add: series_mean_def demo_row_def)
  moreover have "fst (get_national_indicators 0
     [demo_row (Some 10) None, demo_row (Some 11) None, demo_row (Some 10) None] None) = 89"
    by code_simp
  moreover have "get_national_indicators 0 [] None = (0, 0, 0)"
    by (simp add: get_national_indicators_def get_data_def)
  moreover have "get_national_indicators 0 [demo_row (Some 10) None] (Some ''LABOR'') = (0, 0, 0)"
    by (simp add: get_national_indicators_def get_data_def demo_row_def)
  ultimately show ?thesis by (simp add: round_def)
qed

subsection \<open>Forecast\<close>

lemma hour_pos: "0 < hour"
  by (simp add: hour_def)

lemma history_labels:
  "\<exists>lo hi. map fst (hourly_history df) = map (\<lambda>h. h * hour) [lo .. hi]"
proof (cases "stamped df = []")
  case True
  then have "map fst (hourly_history df) = map (\<lambda>h. h * hour) [1 .. 0]"
    by (simp add: hourly_history_def resample_hourly_mean_def)
  then show ?thesis by blast
next
  case False
  then show ?thesis
    by (auto simp: hourly_history_def resample_hourly_mean_def Let_def comp_def)
qed

lemma history_labels_distinct: "distinct (map fst (hourly_history df))"
proof -
  obtain lo hi where l: "map fst (hourly_history df) = map (\<lambda>h. h * hour) [lo .. hi]"
    using history_labels by blast
  have "inj_on (\<lambda>h. h * hour) (set [lo .. hi])"
    using hour_pos by (auto simp: inj_on_def)
  then show ?thesis
    unfolding l by (simp add: distinct_map)
qed

lemma history_empty_without_timestamps:
  "(\<forall>r \<in> set df. published_dt r = None) \<Longrightarrow> hourly_history df = []"
  by (simp add: hourly_history_def resample_hourly_mean_def stamped_def filter_empty_conv)

lemma history_needs_timestamp:
  assumes "hourly_history df \<noteq> []"
  shows "df \<noteq> [] \<and> \<not> (\<forall>r \<in> set df. published_dt r = None)"
proof -
  have "\<not> (\<forall>r \<in> set df. published_dt r = None)"
    using assms history_empty_without_timestamps [of df] by blast
  then show ?thesis by auto
qed

lemma get_forecast_none_iff:
  "(get_forecast frame s = None) = (length (hourly_history (get_data frame s)) < 3)"
proof (cases "length (hourly_history (get_data frame s)) < 3")
  case True
  then show ?thesis by (simp add: get_forecast_def Let_def)
next
  case False
  then have "hourly_history (get_data frame s) \<noteq> []" by auto
  from history_needs_timestamp [OF this] False
  show ?thesis by (simp add: get_forecast_def Let_def)
qed

lemma upt_four: "[n ..< n + 4] = [n, n + 1, n + 2, n + 3]"
  by (simp add: upt_rec numeral_eq_Suc)

lemma get_forecast_some:
  assumes "get_forecast frame s = Some chart"
  defines "h \<equiv> hourly_history (get_data frame s)"
  shows "chart =
      map (\<lambda>p. \<lparr>chart_time = fst p, actual_trend = Some (snd p),
                 ai_forecast = (if fst p = fst (last h) then Some (snd (last h)) else None)\<rparr>) h
      @ map (\<lambda>i. \<lparr>chart_time = fst (last h) + (int i + 1) * hour, actual_trend = None,
                   ai_forecast = Some (linreg_predict (linreg_fit (map snd h))
                                         (real (length h + i)))\<rparr>) [0, 1, 2, 3]"
proof -
  from assms(1) get_forecast_none_iff [of frame s] have n: "\<not> length h < 3"
    by (simp add: h_def)
  then have "hourly_history (get_data frame s) \<noteq> []" by (auto simp: h_def)
  from history_needs_timestamp [OF this]
  have ne: "get_data frame s \<noteq> []"
      "\<not> (\<forall>r \<in> set (get_data frame s). published_dt r = None)"
    by simp_all
  have zero: "[0 ..< 4] = [0, 1, 2, 3::nat]"
    using upt_four [of 0] by simp
  have "get_forecast frame s = Some
      (map (\<lambda>p. \<lparr>chart_time = fst p, actual_trend = Some (snd p),
                 ai_forecast = (if fst p = fst (last h) then Some (snd (last h)) else None)\<rparr>) h
      @ map (\<lambda>i. \<lparr>chart_time = fst (last h) + (int i + 1) * hour, actual_trend = None,
                   ai_forecast = Some (linreg_predict (linreg_fit (map snd h))
                                         (real (length h + i)))\<rparr>) [0, 1, 2, 3])"
    unfolding get_forecast_def Let_def h_def [symmetric] length_map zero upt_four
    using n ne by (simp add: add.commute)
  with assms(1) show ?thesis by simp
qed

lemma get_forecast_chart:
  "(length (hourly_history (get_data frame s)) < 3 \<longrightarrow> get_forecast frame s = None) \<and>
   ((\<forall>r \<in> set (get_data frame s). published_dt r = None) \<longrightarrow> get_forecast frame s = None) \<and>
   (get_forecast frame s = Some chart \<longrightarrow>
      (let h = hourly_history (get_data frame s); n = length h in
         3 \<le> n \<and> length chart = n + 4 \<and>
         (\<forall>i < n. chart_time (chart ! i) = fst (h ! i) \<and>
                   actual_trend (chart ! i) = Some (snd (h ! i))) \<and>
         (\<forall>i < n - 1. ai_forecast (chart ! i) = None) \<and>
         ai_forecast (chart ! (n - 1)) = Some (snd (last h)) \<and>
         (\<forall>i < 4. chart_time (chart ! (n + i)) = fst (last h) + (int i + 1) * hour \<and>
                   actual_trend (chart ! (n + i)) = None \<and>
                   ai_forecast (chart ! (n + i)) =
                     Some (linreg_predict (linreg_fit (map snd h)) (real (n + i))))))"
proof (intro conjI impI)
  assume "length (hourly_history (get_data frame s)) < 3"
  then show "get_forecast frame s = None"
    by (simp add: get_forecast_none_iff)
next
  assume "\<forall>r \<in> set (get_data frame s). published_dt r = None"
  then have "hourly_history (get_data frame s) = []"
    by (rule history_empty_without_timestamps)
  then show "get_forecast frame s = None"
    by (simp add: get_forecast_none_iff)
next
  assume some: "get_forecast frame s = Some chart"
  define h where "h = hourly_history (get_data frame s)"
  define n where "n = length h"
  define A where "A = map (\<lambda>p. \<lparr>chart_time = fst p, actual_trend = Some (snd p),
      ai_forecast = (if fst p = fst (last h) then Some (snd (last h)) else None)\<rparr>) h"
  define B where "B = map (\<lambda>i. \<lparr>chart_time = fst (last h) + (int i + 1) * hour,
      actual_trend = None,
      ai_forecast = Some (linreg_predict (linreg_fit (map snd h)) (real (n + i)))\<rparr>)
      [0, 1, 2, 3::nat]"
  have chart: "chart = A @ B"
    using get_forecast_some [OF some] by (simp add: A_def B_def h_def n_def)
  have lenA: "length A = n" and lenB: "length B = 4"
    by (simp_all add: A_def B_def n_def)
  have n3: "3 \<le> n"
    using some get_forecast_none_iff [of frame s] by (simp add: n_def h_def)
  have "h \<noteq> []"
    using n3 by (auto simp: n_def)
  then have lastn: "last h = h ! (n - 1)"
    by (simp add: n_def last_conv_nth)
  have front: "chart ! i = A ! i" if "i < n" for i
    using that by (simp add: chart nth_append lenA)
  have rear: "chart ! (n + i) = B ! i" for i
    by (simp add: chart nth_append lenA)
  have Anth: "A ! i = \<lparr>chart_time = fst (h ! i), actual_trend = Some (snd (h ! i)),
      ai_forecast = (if fst (h ! i) = fst (last h) then Some (snd (last h)) else None)\<rparr>"
    if "i < n" for i
    using that by (simp add: A_def n_def)
  have dist: "distinct (map fst h)"
    unfolding h_def by (rule history_labels_distinct)
  have other: "fst (h ! i) \<noteq> fst (last h)" if "i < n - 1" for i
  proof -
    from that n3 have "i < length (map fst h)" "n - 1 < length (map fst h)" "i \<noteq> n - 1"
      by (simp_all add: n_def)
    from nth_eq_iff_index_eq [OF dist this(1,2)] this(3)
    have "map fst h ! i \<noteq> map fst h ! (n - 1)"
      by blast
    with that n3 show ?thesis by (simp add: lastn n_def)
  qed
  have p1: "\<forall>i < n. chart_time (chart ! i) = fst (h ! i) \<and>
      actual_trend (chart ! i) = Some (snd (h ! i))"
    by (simp add: front Anth)
  have p2: "\<forall>i < n - 1. ai_forecast (chart ! i) = None"
    using other by (simp add: front Anth)
  have p3: "ai_forecast (chart ! (n - 1)) = Some (snd (last h))"
    using n3 front [of "n - 1"] Anth [of "n - 1"] by (simp add: lastn)
  have p4: "\<forall>i < 4. chart_time (chart ! (n + i)) = fst (last h) + (int i + 1) * hour \<and>
      actual_trend (chart ! (n + i)) = None \<and>
      ai_forecast (chart ! (n + i)) =
        Some (linreg_predict (linreg_fit (map snd h)) (real (n + i)))"
  proof (intro allI impI)
    fix i :: nat
    assume "i < 4"
    then consider "i = 0" | "i = 1" | "i = 2" | "i = 3" by linarith
    then show "chart_time (chart ! (n + i)) = fst (last h) + (int i + 1) * hour \<and>
      actual_trend (chart ! (n + i)) = None \<and>
      ai_forecast (chart ! (n + i)) =
        Some (linreg_predict (linreg_fit (map snd h)) (real (n + i)))"
    proof cases
      case 1
      show ?thesis unfolding 1 rear [of 0] by (simp add: B_def add.commute)
    next
      case 2
      show ?thesis unfolding 2 rear [of 1] by (simp add: B_def add.commute)
    next
      case 3
      show ?thesis unfolding 3 rear [of 2] by (simp add: B_def add.commute)
    next
      case 4
      show ?thesis unfolding 4 rear [of 3] by (simp add: B_def add.commute)
    qed
  qed
  have "length chart = n + 4"
    by (simp add: chart lenA lenB)
  with n3 p1 p2 p3 p4
  show "(let h = hourly_history (get_data frame s); n = length h in
         3 \<le> n \<and> length chart = n + 4 \<and>
         (\<forall>i < n. chart_time (chart ! i) = fst (h ! i) \<and>
                   actual_trend (chart ! i) = Some (snd (h ! i))) \<and>
         (\<forall>i < n - 1. ai_forecast (chart ! i) = None) \<and>
         ai_forecast (chart ! (n - 1)) = Some (snd (last h)) \<and>
         (\<forall>i < 4. chart_time (chart ! (n + i)) = fst (last h) + (int i + 1) * hour \<and>
                   actual_trend (chart ! (n + i)) = None \<and>
                   ai_forecast (chart ! (n + i)) =
                     Some (linreg_predict (linreg_fit (map snd h)) (real (n + i)))))"
    unfolding Let_def h_def [symmetric] n_def [symmetric] by blast
qed


lemma stamped_hours:
  "map (\<lambda>p. fst p div hour) (stamped m) =
   map (\<lambda>r. the (published_dt r) div hour) (filter (\<lambda>r. published_dt r \<noteq> None) m)"
  by (simp add: stamped_def comp_def)

lemma bucket_scores:
  "map snd (filter (\<lambda>p. fst p div hour = h) (stamped m)) =
   map risk_score
     (filter (\<lambda>r. published_dt r \<noteq> None \<and> the (published_dt r) div hour = h) m)"
  by (induction m) (auto simp: stamped_def)

lemma history_explicit:
  assumes "hours = map (\<lambda>r. the (published_dt r) div hour)
                       (filter (\<lambda>r. published_dt r \<noteq> None) m)"
    and "hours \<noteq> []"
  shows "hourly_history m =
    map (\<lambda>h. (h * hour,
               fillna0 (series_mean (map risk_score
                 (filter (\<lambda>r. published_dt r \<noteq> None \<and> the (published_dt r) div hour = h) m)))))
        [Min (set hours) .. Max (set hours)]"
proof -
  have ne: "stamped m \<noteq> []"
    using assms stamped_hours [of m] by auto
  have h: "map (\<lambda>p. fst p div hour) (stamped m) = hours"
    by (simp add: stamped_hours assms(1))
  show ?thesis
    using ne
    by (simp add: hourly_history_def resample_hourly_mean_def Let_def h bucket_scores comp_def)
qed

lemma history_without_hours:
  assumes "map (\<lambda>r. the (published_dt r) div hour)
               (filter (\<lambda>r. published_dt r \<noteq> None) m) = []"
  shows "hourly_history m = []"
proof -
  from assms have "\<forall>r \<in> set m. published_dt r = None"
    by (auto simp: filter_empty_conv)
  then show ?thesis by (rule history_empty_without_timestamps)
qed

lemma mean_explicit:
  "fillna0 (series_mean xs) =
     (let vs = map the (filter (\<lambda>x. x \<noteq> None) xs)
      in if vs = [] then 0 else real_of_int (sum_list vs) / real (length vs))"
  by (simp add: series_mean_def fillna0_def Let_def)

text \<open>
  Claim C5. The matching articles are the whole snapshot when the filter is absent,
  empty or \<open>All\<close>, and otherwise the rows of that sector; their timestamps fall into the
  hours from the earliest to the latest one. \<open>get_forecast\<close> returns \<open>None\<close> when no
  matching article has a timestamp and when these hours are fewer than three. Otherwise
  it returns a chart: one row for each of the hours, in order, followed by exactly four
  further rows, one hour apart after the last observed hour, which carry a projected
  value and no observed one. Among the rows of the observed hours only the last carries
  a forecast value, and that value is the observed value of that row: the mean of the
  scores of the articles of the last hour (0 when none of them has a score).
\<close>

theorem get_forecast_boundary:
  assumes "matching = (if s = None \<or> s = Some [] \<or> s = Some ''All'' then frame
                       else filter (\<lambda>r. Some (sector r) = s) frame)"
    and "hours = map (\<lambda>r. the (published_dt r) div hour)
                     (filter (\<lambda>r. published_dt r \<noteq> None) matching)"
  shows "(hours = [] \<longrightarrow> get_forecast frame s = None) \<and>
   (hours \<noteq> [] \<and> Max (set hours) - Min (set hours) < 2 \<longrightarrow> get_forecast frame s = None) \<and>
   (hours \<noteq> [] \<and> 2 \<le> Max (set hours) - Min (set hours) \<longrightarrow>
      (\<exists>chart. get_forecast frame s = Some chart \<and>
         (let lo = Min (set hours); hi = Max (set hours); n = nat (hi - lo + 1);
              final = map the (filter (\<lambda>x. x \<noteq> None) (map risk_score
                        (filter (\<lambda>r. published_dt r \<noteq> None \<and>
                                      the (published_dt r) div hour = hi) matching)));
              last_mean = (if final = [] then 0
                           else real_of_int (sum_list final) / real (length final))
          in length chart = n + 4 \<and>
             (\<forall>i < n. chart_time (chart ! i) = (lo + int i) * hour \<and>
                       actual_trend (chart ! i) \<noteq> None) \<and>
             (\<forall>i < n - 1. ai_forecast (chart ! i) = None) \<and>
             actual_trend (chart ! (n - 1)) = Some last_mean \<and>
             ai_forecast (chart ! (n - 1)) = Some last_mean \<and>
             (\<forall>i < 4. chart_time (chart ! (n + i)) = (hi + 1 + int i) * hour \<and>
                       actual_trend (chart ! (n + i)) = None \<and>
                       ai_forecast (chart ! (n + i)) \<noteq> None))))"
proof (intro conjI impI)
  have m: "get_data frame s = matching"
    by (simp only: get_data_matching assms(1))
  {
    assume "hours = []"
    then have "hourly_history matching = []"
      using history_without_hours [of matching] assms(2) by simp
    then show "get_forecast frame s = None"
      by (simp add: get_forecast_none_iff m)
  }
  define lo where "lo = Min (set hours)"
  define hi where "hi = Max (set hours)"
  define n where "n = nat (hi - lo + 1)"
  define bucket where "bucket = (\<lambda>h. fillna0 (series_mean (map risk_score
      (filter (\<lambda>r. published_dt r \<noteq> None \<and> the (published_dt r) div hour = h) matching))))"
  have hist: "hourly_history matching = map (\<lambda>h. (h * hour, bucket h)) [lo .. hi]"
    if "hours \<noteq> []"
    using history_explicit [OF assms(2) that] by (simp add: lo_def hi_def bucket_def)
  have len: "length (hourly_history matching) = n" if "hours \<noteq> []"
    using hist [OF that] by (simp add: n_def)
  {
    assume "hours \<noteq> [] \<and> Max (set hours) - Min (set hours) < 2"
    then have "hours \<noteq> []" and "hi - lo < 2"
      by (simp_all add: lo_def hi_def)
    then have "length (hourly_history matching) < 3"
      using len by (simp add: n_def)
    then show "get_forecast frame s = None"
      by (simp add: get_forecast_none_iff m)
  }
  {
    assume h: "hours \<noteq> [] \<and> 2 \<le> Max (set hours) - Min (set hours)"
    then have ne: "hours \<noteq> []" and wide: "2 \<le> hi - lo"
      by (simp_all add: lo_def hi_def)
    have n3: "3 \<le> n" using wide by (simp add: n_def)
    have "\<not> length (hourly_history (get_data frame s)) < 3"
      using len [OF ne] n3 by (simp add: m)
    then obtain chart where some: "get_forecast frame s = Some chart"
      using get_forecast_none_iff [of frame s] by auto
    note c = get_forecast_chart [of frame s chart, unfolded m Let_def len [OF ne],
        THEN conjunct2, THEN conjunct2, rule_format, OF some]
    have nth: "hourly_history matching ! i = ((lo + int i) * hour, bucket (lo + int i))"
      if "i < n" for i
      using that by (simp add: hist [OF ne] n_def)
    have last: "last (hourly_history matching) = (hi * hour, bucket hi)"
    proof -
      have "hourly_history matching \<noteq> []" using len [OF ne] n3 by auto
      then have "last (hourly_history matching) = hourly_history matching ! (n - 1)"
        by (simp add: last_conv_nth len [OF ne])
      also have "\<dots> = ((lo + int (n - 1)) * hour, bucket (lo + int (n - 1)))"
        using n3 by (intro nth) simp
      also have "lo + int (n - 1) = hi"
        using wide by (simp add: n_def)
      finally show ?thesis .
    qed
    have lm: "bucket hi =
        (let final = map the (filter (\<lambda>x. x \<noteq> None) (map risk_score
                        (filter (\<lambda>r. published_dt r \<noteq> None \<and>
                                      the (published_dt r) div hour = hi) matching)))
         in if final = [] then 0 else real_of_int (sum_list final) / real (length final))"
      unfolding bucket_def by (rule mean_explicit)
    have p0: "length chart = n + 4" using c by simp
    have p1: "\<forall>i < n. chart_time (chart ! i) = (lo + int i) * hour \<and>
        actual_trend (chart ! i) \<noteq> None"
      using c nth by simp
    have p2: "\<forall>i < n - 1. ai_forecast (chart ! i) = None"
      using c by simp
    have p3: "actual_trend (chart ! (n - 1)) = Some (bucket hi)"
      "ai_forecast (chart ! (n - 1)) = Some (bucket hi)"
    proof -
      have "n - 1 < n" using n3 by simp
      moreover have "hourly_history matching ! (n - 1) = (hi * hour, bucket hi)"
        using last len [OF ne] n3
        by (metis last_conv_nth length_0_conv not_numeral_le_zero)
      ultimately show "actual_trend (chart ! (n - 1)) = Some (bucket hi)"
        using c by simp
      show "ai_forecast (chart ! (n - 1)) = Some (bucket hi)"
        using c last by simp
    qed
    have p4: "\<forall>i < 4. chart_time (chart ! (n + i)) = (hi + 1 + int i) * hour \<and>
        actual_trend (chart ! (n + i)) = None \<and> ai_forecast (chart ! (n + i)) \<noteq> None"
      using c last by (simp add: algebra_simps)
    from p0 p1 p2 p3 p4 have
      "(let lo = Min (set hours); hi = Max (set hours); n = nat (hi - lo + 1);
              final = map the (filter (\<lambda>x. x \<noteq> None) (map risk_score
                        (filter (\<lambda>r. published_dt r \<noteq> None \<and>
                                      the (published_dt r) div hour = hi) matching)));
              last_mean = (if final = [] then 0
                           else real_of_int (sum_list final) / real (length final))
          in length chart = n + 4 \<and>
             (\<forall>i < n. chart_time (chart ! i) = (lo + int i) * hour \<and>
                       actual_trend (chart ! i) \<noteq> None) \<and>
             (\<forall>i < n - 1. ai_forecast (chart ! i) = None) \<and>
             actual_trend (chart ! (n - 1)) = Some last_mean \<and>
             ai_forecast (chart ! (n - 1)) = Some last_mean \<and>
             (\<forall>i < 4. chart_time (chart ! (n + i)) = (hi + 1 + int i) * hour \<and>
                       actual_trend (chart ! (n + i)) = None \<and>
                       ai_forecast (chart ! (n + i)) \<noteq> None))"
      unfolding Let_def lo_def [symmetric] hi_def [symmetric] n_def [symmetric]
      using lm by (simp add: Let_def)
    with some show "\<exists>chart. get_forecast frame s = Some chart \<and>
         (let lo = Min (set hours); hi = Max (set hours); n = nat (hi - lo + 1);
              final = map the (filter (\<lambda>x. x \<noteq> None) (map risk_score
                        (filter (\<lambda>r. published_dt r \<noteq> None \<and>
                                      the (published_dt r) div hour = hi) matching)));
              last_mean = (if final = [] then 0
                           else real_of_int (sum_list final) / real (length final))
          in length chart = n + 4 \<and>
             (\<forall>i < n. chart_time (chart ! i) = (lo + int i) * hour \<and>
                       actual_trend (chart ! i) \<noteq> None) \<and>
             (\<forall>i < n - 1. ai_forecast (chart ! i) = None) \<and>
             actual_trend (chart ! (n - 1)) = Some last_mean \<and>
             ai_forecast (chart ! (n - 1)) = Some last_mean \<and>
             (\<forall>i < 4. chart_time (chart ! (n + i)) = (hi + 1 + int i) * hour \<and>
                       actual_trend (chart ! (n + i)) = None \<and>
                       ai_forecast (chart ! (n + i)) \<noteq> None))"
      by blast
  }
qed

theorem get_forecast_boundary_witness:
  "get_forecast flat_frame (Some ''LABOR'') = None \<and>
   get_forecast [(demo_row (Some 90) (Some (9 * hour)))\<lparr>sector := ''LABOR''\<rparr>,
                 demo_row (Some 40) (Some (hour + 5)), demo_row (Some 40) (Some 10)]
     (Some ''FINANCE'') = None \<and>
   (\<exists>chart. get_forecast flat_frame (Some ''FINANCE'') = Some chart \<and> length chart = 7 \<and>
      map chart_time chart = [0, hour, 2 * hour, 3 * hour, 4 * hour, 5 * hour, 6 * hour] \<and>
      map ai_forecast (take 3 chart) = [None, None, Some 40] \<and>
      actual_trend (chart ! 2) = Some 40 \<and>
      map actual_trend (drop 3 chart) = [None, None, None, None] \<and>
      None \<notin> set (map ai_forecast (drop 3 chart))) \<and>
   (\<exists>chart. get_forecast flat_frame None = Some chart \<and> length chart = 14 \<and>
      chart_time (chart ! 9) = 9 * hour \<and> ai_forecast (chart ! 9) = Some 90 \<and>
      chart_time (chart ! 13) = 13 * hour \<and> actual_trend (chart ! 13) = None)"
proof -
  let ?lab = "(demo_row (Some 90) (Some (9 * hour)))\<lparr>sector := ''LABOR''\<rparr>"
  let ?r2 = "demo_row (Some 40) (Some (2 * hour + 7))"
  let ?r1 = "demo_row (Some 40) (Some (hour + 5))"
  let ?r0 = "demo_row (Some 40) (Some 10)"
  have sec: "sector ?lab = ''LABOR''" "sector ?r2 = ''FINANCE''" "sector ?r1 = ''FINANCE''"
    "sector ?r0 = ''FINANCE''"
    by (simp_all add: demo_row_def)
  have dt: "published_dt ?lab = Some (9 * hour)" "published_dt ?r2 = Some (2 * hour + 7)"
    "published_dt ?r1 = Some (hour + 5)" "published_dt ?r0 = Some 10"
    by (simp_all add: demo_row_def)
  have sc: "risk_score ?lab = Some 90" "risk_score ?r2 = Some 40" "risk_score ?r1 = Some 40"
    "risk_score ?r0 = Some 40"
    by (simp_all add: demo_row_def)
  have dv: "9 * hour div hour = 9" "(2 * hour + 7) div hour = 2" "(hour + 5) div hour = 1"
    "10 div hour = 0"
    by (simp_all add: hour_def)
  have lab: "[?lab] = (if Some ''LABOR'' = None \<or> Some ''LABOR'' = Some [] \<or>
        Some ''LABOR'' = Some ''All'' then flat_frame
      else filter (\<lambda>r. Some (sector r) = Some ''LABOR'') flat_frame)"
    by (simp add: flat_frame_def sec)
  have lab_h: "[9] = map (\<lambda>r. the (published_dt r) div hour)
      (filter (\<lambda>r. published_dt r \<noteq> None) [?lab])"
    by (simp add: dt dv)
  have c1: "get_forecast flat_frame (Some ''LABOR'') = None"
    using get_forecast_boundary [OF lab lab_h] by simp
  have two: "[?r1, ?r0] = (if Some ''FINANCE'' = None \<or> Some ''FINANCE'' = Some [] \<or>
        Some ''FINANCE'' = Some ''All'' then [?lab, ?r1, ?r0]
      else filter (\<lambda>r. Some (sector r) = Some ''FINANCE'') [?lab, ?r1, ?r0])"
    by (simp add: sec)
  have two_h: "[1, 0] = map (\<lambda>r. the (published_dt r) div hour)
      (filter (\<lambda>r. published_dt r \<noteq> None) [?r1, ?r0])"
    by (simp add: dt dv)
  have c2: "get_forecast [?lab, ?r1, ?r0] (Some ''FINANCE'') = None"
    using get_forecast_boundary [OF two two_h] by simp
  have fin: "[?r2, ?r1, ?r0] = (if Some ''FINANCE'' = None \<or> Some ''FINANCE'' = Some [] \<or>
        Some ''FINANCE'' = Some ''All'' then flat_frame
      else filter (\<lambda>r. Some (sector r) = Some ''FINANCE'') flat_frame)"
    by (simp add: flat_frame_def sec)
  have fin_h: "[2, 1, 0] = map (\<lambda>r. the (published_dt r) div hour)
      (filter (\<lambda>r. published_dt r \<noteq> None) [?r2, ?r1, ?r0])"
    by (simp add: dt dv)
  have fin_last: "map the (filter (\<lambda>x. x \<noteq> None) (map risk_score
      (filter (\<lambda>r. published_dt r \<noteq> None \<and> the (published_dt r) div hour = 2)
        [?r2, ?r1, ?r0]))) = [40]"
    by (simp add: dt dv sc)
  have mm: "Max (set [2, 1, 0 :: int]) = 2" "Min (set [2, 1, 0 :: int]) = 0"
    by simp_all
  from get_forecast_boundary [OF fin fin_h]
  obtain chart where ch: "get_forecast flat_frame (Some ''FINANCE'') = Some chart"
    and len: "length chart = 7"
    and hist: "\<And>i. i < 3 \<Longrightarrow> chart_time (chart ! i) = (0 + int i) * hour \<and>
        actual_trend (chart ! i) \<noteq> None"
    and quiet: "\<And>i. i < 2 \<Longrightarrow> ai_forecast (chart ! i) = None"
    and anchor: "actual_trend (chart ! 2) = Some 40" "ai_forecast (chart ! 2) = Some 40"
    and future: "\<And>i. i < 4 \<Longrightarrow> chart_time (chart ! (3 + i)) = (2 + 1 + int i) * hour \<and>
        actual_trend (chart ! (3 + i)) = None \<and> ai_forecast (chart ! (3 + i)) \<noteq> None"
    unfolding Let_def mm fin_last by auto
  have E: "chart = map ((!) chart) [0..<7]"
    using len map_nth [of chart] by simp
  have U: "[0..<7] = [0, 1, 2, 3, 4, 5, 6]"
    by (simp add: upt_rec)
  obtain a b c d e f g where L: "chart = [a, b, c, d, e, f, g]"
    using E unfolding U list.map by blast
  have c3: "map chart_time chart = [0, hour, 2 * hour, 3 * hour, 4 * hour, 5 * hour, 6 * hour] \<and>
      map ai_forecast (take 3 chart) = [None, None, Some 40] \<and>
      actual_trend (chart ! 2) = Some 40 \<and>
      map actual_trend (drop 3 chart) = [None, None, None, None] \<and>
      None \<notin> set (map ai_forecast (drop 3 chart))"
    using hist [of 0] hist [of 1] hist [of 2] quiet [of 0] quiet [of 1] anchor
      future [of 0] future [of 1] future [of 2] future [of 3]
    unfolding L by auto
  have all_m: "flat_frame = (if (None :: string option) = None \<or> None = Some [] \<or>
        None = Some ''All'' then flat_frame
      else filter (\<lambda>r. Some (sector r) = None) flat_frame)"
    by simp
  have all_h: "[9, 2, 1, 0] = map (\<lambda>r. the (published_dt r) div hour)
      (filter (\<lambda>r. published_dt r \<noteq> None) flat_frame)"
    by (simp add: flat_frame_def dt dv)
  have all_last: "map the (filter (\<lambda>x. x \<noteq> None) (map risk_score
      (filter (\<lambda>r. published_dt r \<noteq> None \<and> the (published_dt r) div hour = 9)
        flat_frame))) = [90]"
    by (simp add: flat_frame_def dt dv sc)
  have mm9: "Max (set [9, 2, 1, 0 :: int]) = 9" "Min (set [9, 2, 1, 0 :: int]) = 0"
    by simp_all
  from get_forecast_boundary [OF all_m all_h]
  obtain wide where w: "get_forecast flat_frame None = Some wide"
    and wlen: "length wide = 14"
    and whist: "\<And>i. i < 10 \<Longrightarrow> chart_time (wide ! i) = (0 + int i) * hour \<and>
        actual_trend (wide ! i) \<noteq> None"
    and wanchor: "ai_forecast (wide ! 9) = Some 90"
    and wfuture: "\<And>i. i < 4 \<Longrightarrow> chart_time (wide ! (10 + i)) = (9 + 1 + int i) * hour \<and>
        actual_trend (wide ! (10 + i)) = None \<and> ai_forecast (wide ! (10 + i)) \<noteq> None"
    unfolding Let_def mm9 all_last by auto
  have c4: "chart_time (wide ! 9) = 9 * hour \<and> ai_forecast (wide ! 9) = Some 90 \<and>
      chart_time (wide ! 13) = 13 * hour \<and> actual_trend (wide ! 13) = None"
    using whist [of 9] wanchor wfuture [of 3] by simp
  show ?thesis
    apply (rule conjI [OF c1])
    apply (rule conjI [OF c2])
    apply (rule conjI)
     apply (rule exI [of _ chart])
     apply (simp only: ch len c3 simp_thms)
    apply (rule exI [of _ wide])
    apply (simp only: w wlen c4 simp_thms)
    done
qed


subsection \<open>Idempotence of the normalisation\<close>

lemma isspace_blank [simp]: "isspace (CHR '' '')"
  by (simp add: isspace_def code_point_def)

lemma kept_char_blank [simp]: "kept_char (CHR '' '')"
  by (simp add: kept_char_def)

lemma markup_not_kept: "\<not> kept_char (CHR ''<'')" "\<not> kept_char (CHR ''&'')"
  by (simp_all add: kept_char_def isalnum_def isspace_def code_point_def)

lemma set_collapse_ws: "set (collapse_ws s) \<subseteq> insert (CHR '' '') (set s)"
proof (induction s rule: collapse_ws.induct)
  case 1
  show ?case by simp
next
  case (2 c cs)
  have "set (dropWhile isspace cs) \<subseteq> set cs"
    by (rule set_dropWhileD [THEN subsetI])
  with 2 show ?case by auto
qed

lemma length_collapse_ws: "length (collapse_ws s) \<le> length s"
proof (induction s rule: collapse_ws.induct)
  case 1
  show ?case by simp
next
  case (2 c cs)
  have "length (dropWhile isspace cs) \<le> length cs"
    by (rule length_dropWhile_le)
  with 2 show ?case by auto
qed

lemma dropWhile_collapse_ws:
  "s = [] \<or> \<not> isspace (hd s) \<Longrightarrow> dropWhile isspace (collapse_ws s) = collapse_ws s"
  by (cases s) auto

lemma collapse_ws_idem: "collapse_ws (collapse_ws s) = collapse_ws s"
proof (induction s rule: collapse_ws.induct)
  case 1
  show ?case by simp
next
  case (2 c cs)
  show ?case
  proof (cases "isspace c")
    case True
    have "dropWhile isspace cs = [] \<or> \<not> isspace (hd (dropWhile isspace cs))"
      using hd_dropWhile [of isspace cs] by blast
    from dropWhile_collapse_ws [OF this] 2(1) [OF True] True
    show ?thesis by simp
  next
    case False
    with 2(2) show ?thesis by simp
  qed
qed

lemma collapse_ws_fixed_dropWhile:
  assumes "collapse_ws v = v"
  shows "collapse_ws (dropWhile isspace v) = dropWhile isspace v"
proof (cases v)
  case Nil
  then show ?thesis by simp
next
  case (Cons c cs)
  show ?thesis
  proof (cases "isspace c")
    case False
    with Cons assms show ?thesis by simp
  next
    case True
    define d where "d = dropWhile isspace cs"
    have d: "d = [] \<or> \<not> isspace (hd d)"
      unfolding d_def using hd_dropWhile [of isspace cs] by blast
    from assms Cons True have "cs = collapse_ws d"
      by (simp add: d_def)
    then have "d = dropWhile isspace (collapse_ws d)"
      by (simp add: d_def)
    with dropWhile_collapse_ws [OF d] have "collapse_ws d = d"
      by simp
    with Cons True show ?thesis by (simp add: d_def)
  qed
qed

lemma collapse_ws_append:
  "xs = [] \<or> \<not> isspace (last xs) \<Longrightarrow>
   collapse_ws (xs @ ys) = collapse_ws xs @ collapse_ws ys"
proof (induction xs rule: collapse_ws.induct)
  case 1
  show ?case by simp
next
  case (2 c cs)
  show ?case
  proof (cases "isspace c")
    case True
    with 2(3) have ne: "cs \<noteq> []" and l: "\<not> isspace (last cs)"
      by (auto split: if_splits)
    then have ex: "\<exists>x \<in> set cs. \<not> isspace x"
      using last_in_set by blast
    then obtain x where "x \<in> set cs" "\<not> isspace x" by blast
    then have dw: "dropWhile isspace (cs @ ys) = dropWhile isspace cs @ ys"
      by (rule dropWhile_append1)
    have dne: "dropWhile isspace cs \<noteq> []"
      using ex by (simp add: dropWhile_eq_Nil_conv)
    have "last (dropWhile isspace cs) = last cs"
      using dne by (metis last_appendR takeWhile_dropWhile_id)
    with l dne 2(1) [OF True] have
      "collapse_ws (dropWhile isspace cs @ ys) =
         collapse_ws (dropWhile isspace cs) @ collapse_ws ys"
      by simp
    with True dw show ?thesis by simp
  next
    case False
    show ?thesis
    proof (cases "cs = []")
      case True
      with False show ?thesis by simp
    next
      case ne: False
      with 2(3) have "\<not> isspace (last cs)" by simp
      with 2(2) [OF False] False show ?thesis by simp
    qed
  qed
qed

lemma strip_decomp:
  "\<exists>w. dropWhile isspace s = strip s @ w \<and> (\<forall>c \<in> set w. isspace c) \<and>
       (strip s = [] \<or> (\<not> isspace (hd (strip s)) \<and> \<not> isspace (last (strip s))))"
proof -
  define d where "d = dropWhile isspace s"
  define w where "w = rev (takeWhile isspace (rev d))"
  have r: "strip s = rev (dropWhile isspace (rev d))"
    by (simp add: strip_def d_def)
  have "rev (takeWhile isspace (rev d) @ dropWhile isspace (rev d)) = d"
    by simp
  then have dec: "d = strip s @ w"
    unfolding rev_append r w_def by simp
  have ws: "\<forall>c \<in> set w. isspace c"
    unfolding w_def using set_takeWhileD [of _ isspace "rev d"] by auto
  have dh: "d = [] \<or> \<not> isspace (hd d)"
    unfolding d_def using hd_dropWhile [of isspace s] by blast
  have ends: "\<not> isspace (hd (strip s)) \<and> \<not> isspace (last (strip s))" if ne: "strip s \<noteq> []"
  proof -
    from ne dec have "hd d = hd (strip s)" "d \<noteq> []" by auto
    with dh have h: "\<not> isspace (hd (strip s))" by auto
    from ne have ne': "dropWhile isspace (rev d) \<noteq> []" by (simp add: r)
    have "last (strip s) = hd (dropWhile isspace (rev d))"
      unfolding r using ne' by (simp add: last_rev)
    with hd_dropWhile [OF ne'] h show ?thesis by simp
  qed
  from dec ws ends show ?thesis unfolding d_def by blast
qed

lemma strip_fixed:
  assumes "r = [] \<or> (\<not> isspace (hd r) \<and> \<not> isspace (last r))"
  shows "strip r = r"
proof (cases "r = []")
  case True
  then show ?thesis by (simp add: strip_def)
next
  case False
  with assms have h: "\<not> isspace (hd r)" and l: "\<not> isspace (last r)" by simp_all
  from False h have a: "dropWhile isspace r = r" by (cases r) simp_all
  from False l have "dropWhile isspace (rev r) = rev r"
    by (cases "rev r") (simp_all add: last_rev [symmetric] hd_rev)
  with a show ?thesis by (simp add: strip_def)
qed

lemma set_strip: "set (strip s) \<subseteq> set s"
proof -
  from strip_decomp [of s] obtain w where "dropWhile isspace s = strip s @ w" by blast
  then have "set (strip s) \<subseteq> set (dropWhile isspace s)" by simp
  also have "\<dots> \<subseteq> set s" by (rule set_dropWhileD [THEN subsetI])
  finally show ?thesis .
qed

lemma collapse_ws_strip:
  assumes "collapse_ws v = v"
  shows "collapse_ws (strip v) = strip v"
proof -
  from strip_decomp [of v] obtain w where dec: "dropWhile isspace v = strip v @ w"
    and ws: "\<forall>c \<in> set w. isspace c"
    and ends: "strip v = [] \<or> \<not> isspace (last (strip v))"
    by blast
  have fixd: "collapse_ws (strip v @ w) = strip v @ w"
    using collapse_ws_fixed_dropWhile [OF assms] by (simp add: dec)
  have split: "collapse_ws (strip v @ w) = collapse_ws (strip v) @ collapse_ws w"
    using ends by (rule collapse_ws_append)
  have "length (collapse_ws (strip v)) = length (strip v)"
  proof -
    have "length (collapse_ws (strip v)) + length (collapse_ws w) = length (strip v) + length w"
      using fixd split by (metis length_append)
    with length_collapse_ws [of "strip v"] length_collapse_ws [of w] show ?thesis by linarith
  qed
  with fixd split show ?thesis by (metis append_eq_append_conv)
qed

lemma normal_form:
  fixes u :: string
  defines "r \<equiv> strip (collapse_ws (filter kept_char u))"
  shows "collapse_ws r = r" and "strip r = r" and "filter kept_char r = r"
    and "CHR ''<'' \<notin> set r" and "CHR ''&'' \<notin> set r"
    and "r \<noteq> [] \<Longrightarrow> \<exists>c \<in> set r. \<not> isspace c"
proof -
  show "collapse_ws r = r"
    unfolding r_def by (rule collapse_ws_strip) (rule collapse_ws_idem)
  from strip_decomp [of "collapse_ws (filter kept_char u)"]
  have ends: "r = [] \<or> (\<not> isspace (hd r) \<and> \<not> isspace (last r))"
    unfolding r_def by blast
  then show "strip r = r" by (rule strip_fixed)
  have "set r \<subseteq> insert (CHR '' '') (set (filter kept_char u))"
    unfolding r_def using set_strip set_collapse_ws by blast
  then have kept: "\<forall>c \<in> set r. kept_char c" by auto
  then show "filter kept_char r = r" by (simp add: filter_id_conv)
  from kept markup_not_kept show "CHR ''<'' \<notin> set r" and "CHR ''&'' \<notin> set r"
    by blast+
  show "\<exists>c \<in> set r. \<not> isspace c" if "r \<noteq> []"
    using that ends hd_in_set by blast
qed

text \<open>
  Claim C8. Normalisation is idempotent: for every raw input \<open>x\<close>,
  \<open>preprocess (preprocess x) = preprocess x\<close>. The HTML parser is a library outside the
  program; what the proof needs of it is that it returns unchanged a text that has no
  \<open><\<close>, no \<open>&\<close> and some character that is not whitespace. The output of the first pass
  is such a text or empty: it holds kept characters only, has single spaces, and neither
  starts nor ends with whitespace.
\<close>

theorem preprocess_idempotent:
  assumes "\<forall>s. CHR ''<'' \<notin> set s \<and> CHR ''&'' \<notin> set s \<and> (\<exists>c \<in> set s. \<not> isspace c)
             \<longrightarrow> get_text s = s"
  shows "preprocess get_text (Some (preprocess get_text x)) = preprocess get_text x"
proof (cases "preprocess get_text x = []")
  case True
  then show ?thesis by (simp add: preprocess_def)
next
  case False
  then obtain t where x: "x = Some t" "t \<noteq> []"
    by (auto simp: preprocess_def split: option.splits if_splits)
  define r where "r = strip (collapse_ws (filter kept_char (get_text t)))"
  have pr: "preprocess get_text x = r"
    using x by (simp add: preprocess_def r_def)
  with False have ne: "r \<noteq> []" by simp
  note nf = normal_form [of "get_text t", folded r_def]
  from assms nf(4,5) nf(6) [OF ne] have "get_text r = r" by blast
  with ne nf(1-3) have "preprocess get_text (Some r) = r"
    by (simp add: preprocess_def)
  with pr show ?thesis by simp
qed

lemma drop_tags_plain: "CHR ''<'' \<notin> set s \<Longrightarrow> drop_tags False s = s"
  by (induction s) auto

theorem preprocess_idempotent_witness:
  "preprocess (drop_tags False)
     (Some ''<b>Riots erupt</b> in Colombo, scheduled curfew tomorrow'') =
     ''Riots erupt in Colombo, scheduled curfew tomorrow'' \<and>
   preprocess (drop_tags False)
     (Some (preprocess (drop_tags False)
        (Some ''<b>Riots erupt</b> in Colombo, scheduled curfew tomorrow''))) =
     ''Riots erupt in Colombo, scheduled curfew tomorrow''"
proof -
  have v: "preprocess (drop_tags False)
     (Some ''<b>Riots erupt</b> in Colombo, scheduled curfew tomorrow'') =
     ''Riots erupt in Colombo, scheduled curfew tomorrow''"
    by code_simp
  have p: "\<forall>s. CHR ''<'' \<notin> set s \<and> CHR ''&'' \<notin> set s \<and> (\<exists>c \<in> set s. \<not> isspace c)
             \<longrightarrow> drop_tags False s = s"
    by (simp add: drop_tags_plain)
  from preprocess_idempotent [OF p,
      of "Some ''<b>Riots erupt</b> in Colombo, scheduled curfew tomorrow''"] v
  show ?thesis by simp
qed

end
